theory Spec2Isabelle
  imports Complex_Main "HOL-Library.Multiset"
begin

section \<open>Data model (types.ts)\<close>

text \<open>
  A JavaScript number that holds a timestamp is an integral number of milliseconds or
  \<open>NaN\<close>. The fields that the pages fill from \<open>Date.now()\<close> are integers. A task's due
  date is the number that the handlers for adding and editing a task write, which is
  \<open>NaN\<close> when the date string does not parse.
\<close>

datatype jsNumber = NaN | Num int

datatype UserRole = STUDENT | ADMIN

record UserProfile =
  uid :: string
  email :: string
  displayName :: string
  photoURL :: string
  role :: UserRole
  bio :: "string option"
  createdAt :: int

record Task =
  id :: string
  userId :: string
  title :: string
  description :: "string option"
  dueDate :: jsNumber
  completed :: bool
  completedAt :: "int option"
  createdAt :: int

section \<open>The date library, as far as the pages use it\<close>

text \<open>
  The date library works in local time. The model runs the program in the time zone UTC:
  local time has no offset and no daylight saving, and a day has 86400000 milliseconds.
  A \<open>Date\<close> object holds a time value of at most 8640000000000000 milliseconds on either
  side of the epoch, or is invalid; the library turns a number into a \<open>Date\<close> before it
  works on it, and every comparison with an invalid date is false.
\<close>

datatype Date = InvalidDate | DateOf int

definition toDate :: "jsNumber \<Rightarrow> Date" where
  "toDate x =
     (case x of
        NaN \<Rightarrow> InvalidDate
      | Num t \<Rightarrow> if \<bar>t\<bar> \<le> 8640000000000000 then DateOf t else InvalidDate)"

definition getTime :: "Date \<Rightarrow> jsNumber" where
  "getTime d = (case d of InvalidDate \<Rightarrow> NaN | DateOf t \<Rightarrow> Num t)"

definition msPerDay :: int where
  "msPerDay = 86400000"

text \<open>The start of the day of a time value, and of a \<open>Date\<close>.\<close>

definition startOfDay :: "int \<Rightarrow> int" where
  "startOfDay t = t - t mod msPerDay"

definition startOfDay_Date :: "Date \<Rightarrow> Date" where
  "startOfDay_Date d = (case d of InvalidDate \<Rightarrow> InvalidDate | DateOf t \<Rightarrow> DateOf (startOfDay t))"

definition isSameDay :: "int \<Rightarrow> int \<Rightarrow> bool" where
  "isSameDay a b = (startOfDay a = startOfDay b)"

text \<open>\<open>isToday\<close>, \<open>isPast\<close> and \<open>isFuture\<close> read the clock; the model passes it as \<open>now\<close>.\<close>

definition isToday :: "int \<Rightarrow> Date \<Rightarrow> bool" where
  "isToday now d = (case d of InvalidDate \<Rightarrow> False | DateOf t \<Rightarrow> isSameDay t now)"

definition isPast :: "int \<Rightarrow> Date \<Rightarrow> bool" where
  "isPast now d = (case d of InvalidDate \<Rightarrow> False | DateOf t \<Rightarrow> t < now)"

definition isFuture :: "int \<Rightarrow> Date \<Rightarrow> bool" where
  "isFuture now d = (case d of InvalidDate \<Rightarrow> False | DateOf t \<Rightarrow> now < t)"

text \<open>
  The day number of a time value, and what it means for a task to have a valid due date
  and to be due before, on or after the current day.
\<close>

definition dayNumber :: "int \<Rightarrow> int" where
  "dayNumber t = t div msPerDay"

definition validDue :: "Task \<Rightarrow> bool" where
  "validDue t = (toDate (dueDate t) \<noteq> InvalidDate)"

definition dueBefore :: "int \<Rightarrow> Task \<Rightarrow> bool" where
  "dueBefore now t =
     (case toDate (dueDate t) of InvalidDate \<Rightarrow> False | DateOf d \<Rightarrow> dayNumber d < dayNumber now)"

definition dueOn :: "int \<Rightarrow> Task \<Rightarrow> bool" where
  "dueOn now t =
     (case toDate (dueDate t) of InvalidDate \<Rightarrow> False | DateOf d \<Rightarrow> dayNumber d = dayNumber now)"

definition dueAfter :: "int \<Rightarrow> Task \<Rightarrow> bool" where
  "dueAfter now t =
     (case toDate (dueDate t) of InvalidDate \<Rightarrow> False | DateOf d \<Rightarrow> dayNumber now < dayNumber d)"

section \<open>StudentDashboard\<close>

text \<open>The snapshot listener sorts the fetched tasks in place, oldest created first.
  \<open>Array.prototype.sort\<close> is stable, as is \<open>sort_key\<close>.\<close>

definition onSnapshot :: "Task list \<Rightarrow> Task list" where
  "onSnapshot fetchedTasks = sort_key Task.createdAt fetchedTasks"

definition todayTasks :: "int \<Rightarrow> Task list \<Rightarrow> Task list" where
  "todayTasks now tasks =
     filter (\<lambda>t. isToday now (toDate (dueDate t)) \<and> \<not> completed t) tasks"

definition upcomingTasks :: "int \<Rightarrow> Task list \<Rightarrow> Task list" where
  "upcomingTasks now tasks =
     filter (\<lambda>t. isFuture now (startOfDay_Date (toDate (dueDate t)))
                \<and> \<not> isToday now (toDate (dueDate t)) \<and> \<not> completed t) tasks"

definition overdueTasks :: "int \<Rightarrow> Task list \<Rightarrow> Task list" where
  "overdueTasks now tasks =
     filter (\<lambda>t. isPast now (startOfDay_Date (toDate (dueDate t)))
                \<and> \<not> isToday now (toDate (dueDate t)) \<and> \<not> completed t) tasks"

definition completedTasks :: "Task list \<Rightarrow> Task list" where
  "completedTasks tasks = filter completed tasks"

text \<open>The Completed column receives \<open>completedTasks.slice(0, 10)\<close> of the sorted state.\<close>

definition completedPreview :: "Task list \<Rightarrow> Task list" where
  "completedPreview fetchedTasks = take 10 (completedTasks (onSnapshot fetchedTasks))"

text \<open>The claimed order of the preview: newest first by creation time.\<close>

definition newestFirstPreview :: "Task list \<Rightarrow> Task list" where
  "newestFirstPreview fetchedTasks =
     take 10 (sort_key (\<lambda>t. - Task.createdAt t) (filter completed fetchedTasks))"

text \<open>
  \<open>toggleTask\<close> writes two fields of the task's document. The collection is a map from
  document ids to documents; \<open>updateDoc\<close> fails on a document that does not exist, and
  \<open>toggleTask\<close> catches the failure and leaves the collection as it was.
\<close>

type_synonym tasksCollection = "string \<rightharpoonup> Task"

definition updateDoc :: "tasksCollection \<Rightarrow> string \<Rightarrow> (Task \<Rightarrow> Task) \<Rightarrow> tasksCollection option" where
  "updateDoc db k upd = (case db k of None \<Rightarrow> None | Some d \<Rightarrow> Some (db(k \<mapsto> upd d)))"

definition toggleFields :: "int \<Rightarrow> Task \<Rightarrow> Task \<Rightarrow> Task" where
  "toggleFields now task d =
     d\<lparr>completed := \<not> completed task,
       completedAt := (if \<not> completed task then Some now else None)\<rparr>"

definition toggleTask :: "tasksCollection \<Rightarrow> int \<Rightarrow> Task \<Rightarrow> tasksCollection" where
  "toggleTask db now task =
     (case updateDoc db (id task) (toggleFields now task) of
        None \<Rightarrow> db
      | Some db' \<Rightarrow> db')"

definition completionInvariant :: "Task \<Rightarrow> bool" where
  "completionInvariant d = ((completedAt d \<noteq> None) = completed d)"

section \<open>Facts about days\<close>

lemma msPerDay_pos: "0 < msPerDay"
  by (simp add: msPerDay_def)

lemma startOfDay_eq: "startOfDay t = dayNumber t * msPerDay"
  unfolding startOfDay_def dayNumber_def
  by (simp add: minus_mod_eq_div_mult)

lemma startOfDay_le: "startOfDay t \<le> t"
  unfolding startOfDay_def using msPerDay_pos by simp

lemma startOfDay_less_iff: "startOfDay a < startOfDay b \<longleftrightarrow> dayNumber a < dayNumber b"
  using msPerDay_pos by (simp add: startOfDay_eq)

lemma startOfDay_eq_iff: "startOfDay a = startOfDay b \<longleftrightarrow> dayNumber a = dayNumber b"
  using msPerDay_pos by (simp add: startOfDay_eq)

lemma past_start_iff:
  "startOfDay d < now \<and> startOfDay d \<noteq> startOfDay now \<longleftrightarrow> dayNumber d < dayNumber now"
proof
  assume h: "startOfDay d < now \<and> startOfDay d \<noteq> startOfDay now"
  have "dayNumber d * msPerDay < now" using h by (simp add: startOfDay_eq)
  then have "dayNumber d \<le> dayNumber now"
    unfolding dayNumber_def using msPerDay_pos
    by (metis less_imp_le zdiv_mono1 nonzero_mult_div_cancel_right less_irrefl)
  moreover have "dayNumber d \<noteq> dayNumber now" using h by (simp add: startOfDay_eq_iff)
  ultimately show "dayNumber d < dayNumber now" by simp
next
  assume "dayNumber d < dayNumber now"
  then have "startOfDay d < startOfDay now" by (simp add: startOfDay_less_iff)
  then show "startOfDay d < now \<and> startOfDay d \<noteq> startOfDay now"
    using startOfDay_le [of now] by simp
qed

lemma future_start_iff:
  "now < startOfDay d \<and> startOfDay d \<noteq> startOfDay now \<longleftrightarrow> dayNumber now < dayNumber d"
proof
  assume h: "now < startOfDay d \<and> startOfDay d \<noteq> startOfDay now"
  then have "startOfDay now < startOfDay d" using startOfDay_le [of now] by simp
  then show "dayNumber now < dayNumber d" by (simp add: startOfDay_less_iff)
next
  assume h: "dayNumber now < dayNumber d"
  then have "dayNumber now + 1 \<le> dayNumber d" by simp
  then have "(dayNumber now + 1) * msPerDay \<le> dayNumber d * msPerDay"
    using msPerDay_pos by (simp add: mult_right_mono)
  moreover have "now < (dayNumber now + 1) * msPerDay"
  proof -
    have "now = dayNumber now * msPerDay + now mod msPerDay"
      unfolding dayNumber_def by simp
    moreover have "now mod msPerDay < msPerDay" using msPerDay_pos by simp
    ultimately show ?thesis by (simp add: algebra_simps)
  qed
  ultimately have "now < startOfDay d" by (simp add: startOfDay_eq)
  moreover have "startOfDay d \<noteq> startOfDay now" using h by (simp add: startOfDay_eq_iff)
  ultimately show "now < startOfDay d \<and> startOfDay d \<noteq> startOfDay now" by simp
qed

text \<open>The start of the day of a time value in the range of \<open>Date\<close> is in that range.\<close>

lemma startOfDay_in_range:
  assumes "\<bar>t\<bar> \<le> 8640000000000000"
  shows "\<bar>startOfDay t\<bar> \<le> 8640000000000000"
proof -
  have "- 8640000000000000 \<le> t" using assms by simp
  then have "(- 8640000000000000) div msPerDay \<le> t div msPerDay"
    using msPerDay_pos by (rule zdiv_mono1)
  then have "- 100000000 \<le> dayNumber t"
    by (simp add: dayNumber_def msPerDay_def)
  then have "- 100000000 * msPerDay \<le> dayNumber t * msPerDay"
    using msPerDay_pos by (simp only: mult_le_cancel_right_pos)
  then have "- 8640000000000000 \<le> startOfDay t"
    by (simp add: startOfDay_eq msPerDay_def)
  moreover have "startOfDay t \<le> 8640000000000000"
    using startOfDay_le [of t] assms by simp
  ultimately show ?thesis by simp
qed

lemma overdueTasks_days:
  "overdueTasks now tasks = filter (\<lambda>t. \<not> completed t \<and> dueBefore now t) tasks"
proof -
  have "isPast now (startOfDay_Date d) \<and> \<not> isToday now d
      \<longleftrightarrow> (case d of InvalidDate \<Rightarrow> False | DateOf t \<Rightarrow> dayNumber t < dayNumber now)" for d
    using past_start_iff
    by (cases d) (simp_all add: isPast_def isToday_def isSameDay_def startOfDay_Date_def)
  then show ?thesis
    unfolding overdueTasks_def dueBefore_def by (auto intro: filter_cong)
qed

lemma todayTasks_days:
  "todayTasks now tasks = filter (\<lambda>t. \<not> completed t \<and> dueOn now t) tasks"
proof -
  have "isToday now d
      \<longleftrightarrow> (case d of InvalidDate \<Rightarrow> False | DateOf t \<Rightarrow> dayNumber t = dayNumber now)" for d
    by (cases d) (simp_all add: isToday_def isSameDay_def startOfDay_eq_iff)
  then show ?thesis
    unfolding todayTasks_def dueOn_def by (auto intro: filter_cong)
qed

lemma upcomingTasks_days:
  "upcomingTasks now tasks = filter (\<lambda>t. \<not> completed t \<and> dueAfter now t) tasks"
proof -
  have "isFuture now (startOfDay_Date d) \<and> \<not> isToday now d
      \<longleftrightarrow> (case d of InvalidDate \<Rightarrow> False | DateOf t \<Rightarrow> dayNumber now < dayNumber t)" for d
    using future_start_iff
    by (cases d) (simp_all add: isFuture_def isToday_def isSameDay_def startOfDay_Date_def)
  then show ?thesis
    unfolding upcomingTasks_def dueAfter_def by (auto intro: filter_cong)
qed

lemma due_cases:
  "validDue t \<longleftrightarrow> dueBefore now t \<or> dueOn now t \<or> dueAfter now t"
  by (cases "toDate (dueDate t)") (auto simp: validDue_def dueBefore_def dueOn_def dueAfter_def)

lemma due_exclusive:
  "\<not> (dueBefore now t \<and> dueOn now t)" "\<not> (dueBefore now t \<and> dueAfter now t)"
  "\<not> (dueOn now t \<and> dueAfter now t)"
  by (cases "toDate (dueDate t)"; simp add: dueBefore_def dueOn_def dueAfter_def)+

lemma buckets_mset:
  "mset (overdueTasks now tasks) + mset (todayTasks now tasks)
     + mset (upcomingTasks now tasks) + mset (completedTasks tasks)
   = mset (filter (\<lambda>t. completed t \<or> validDue t) tasks)"
  unfolding overdueTasks_days todayTasks_days upcomingTasks_days completedTasks_def
  using due_cases [of _ now] due_exclusive [of now]
  by (induction tasks) auto

subsection \<open>Years, months and dates of time values\<close>

text \<open>
  The calendar of ECMAScript time values (the proleptic Gregorian calendar), with months
  counted from 0 as \<open>getMonth\<close> does. \<open>DaysInYear\<close>, \<open>DayFromYear\<close> and the month table
  are the language specification's; the year of a day number is found by walking from 1970.
\<close>

definition DaysInYear :: "int \<Rightarrow> int" where
  "DaysInYear y =
     (if y mod 4 \<noteq> 0 then 365
      else if y mod 100 \<noteq> 0 then 366
      else if y mod 400 \<noteq> 0 then 365
      else 366)"

definition InLeapYear :: "int \<Rightarrow> int" where
  "InLeapYear y = (if DaysInYear y = 366 then 1 else 0)"

definition DayFromYear :: "int \<Rightarrow> int" where
  "DayFromYear y =
     365 * (y - 1970) + (y - 1969) div 4 - (y - 1901) div 100 + (y - 1601) div 400"

function yearUp :: "int \<Rightarrow> int \<Rightarrow> int \<times> int" where
  "yearUp y r = (if r < DaysInYear y then (y, r) else yearUp (y + 1) (r - DaysInYear y))"
  by pat_completeness auto
termination
  by (relation "measure (\<lambda>(y, r). nat r)") (auto simp: DaysInYear_def split: if_splits)

function yearDown :: "int \<Rightarrow> int \<Rightarrow> int \<times> int" where
  "yearDown y r = (if 0 \<le> r then (y, r) else yearDown (y - 1) (r + DaysInYear (y - 1)))"
  by pat_completeness auto
termination
  by (relation "measure (\<lambda>(y, r). nat (- r))") (auto simp: DaysInYear_def split: if_splits)

definition yearAndDay :: "int \<Rightarrow> int \<times> int" where
  "yearAndDay d = (if 0 \<le> d then yearUp 1970 d else yearDown 1970 d)"

text \<open>The day within the year on which month \<open>m\<close> begins; \<open>leap\<close> is 1 in a leap year.\<close>

definition monthStart :: "int \<Rightarrow> int \<Rightarrow> int" where
  "monthStart leap m =
     (if m = 0 then 0 else if m = 1 then 31 else if m = 2 then 59 + leap
      else if m = 3 then 90 + leap else if m = 4 then 120 + leap
      else if m = 5 then 151 + leap else if m = 6 then 181 + leap
      else if m = 7 then 212 + leap else if m = 8 then 243 + leap
      else if m = 9 then 273 + leap else if m = 10 then 304 + leap
      else 334 + leap)"

definition MonthFromDay :: "int \<Rightarrow> int \<Rightarrow> int" where
  "MonthFromDay leap d =
     (if d < 31 then 0 else if d < 59 + leap then 1 else if d < 90 + leap then 2
      else if d < 120 + leap then 3 else if d < 151 + leap then 4
      else if d < 181 + leap then 5 else if d < 212 + leap then 6
      else if d < 243 + leap then 7 else if d < 273 + leap then 8
      else if d < 304 + leap then 9 else if d < 334 + leap then 10
      else 11)"

definition daysInMonth :: "int \<Rightarrow> int \<Rightarrow> int" where
  "daysInMonth y m =
     (if m = 1 then 28 + InLeapYear y
      else if m = 3 \<or> m = 5 \<or> m = 8 \<or> m = 10 then 30
      else 31)"

definition MakeDay :: "int \<Rightarrow> int \<Rightarrow> int \<Rightarrow> int" where
  "MakeDay year month date =
     (let ym = year + month div 12; mn = month mod 12
      in DayFromYear ym + monthStart (InLeapYear ym) mn + date - 1)"

definition TimeWithinDay :: "int \<Rightarrow> int" where
  "TimeWithinDay t = t mod msPerDay"

definition getFullYear :: "int \<Rightarrow> int" where
  "getFullYear t = fst (yearAndDay (dayNumber t))"

definition DayWithinYear :: "int \<Rightarrow> int" where
  "DayWithinYear t = snd (yearAndDay (dayNumber t))"

definition getMonth :: "int \<Rightarrow> int" where
  "getMonth t = MonthFromDay (InLeapYear (getFullYear t)) (DayWithinYear t)"

definition getDate :: "int \<Rightarrow> int" where
  "getDate t = DayWithinYear t - monthStart (InLeapYear (getFullYear t)) (getMonth t) + 1"

definition getDay :: "int \<Rightarrow> int" where
  "getDay t = (dayNumber t + 4) mod 7"

definition setFullYear :: "int \<Rightarrow> int \<Rightarrow> int \<Rightarrow> int \<Rightarrow> int" where
  "setFullYear t year month date = MakeDay year month date * msPerDay + TimeWithinDay t"

definition setDate :: "int \<Rightarrow> int \<Rightarrow> int" where
  "setDate t date = setFullYear t (getFullYear t) (getMonth t) date"

definition setHours :: "int \<Rightarrow> int \<Rightarrow> int \<Rightarrow> int \<Rightarrow> int \<Rightarrow> int" where
  "setHours t h m s ms = dayNumber t * msPerDay + ((h * 60 + m) * 60 + s) * 1000 + ms"

definition addDays :: "int \<Rightarrow> int \<Rightarrow> int" where
  "addDays t amount = setDate t (getDate t + amount)"

definition subDays :: "int \<Rightarrow> int \<Rightarrow> int" where
  "subDays t amount = addDays t (- amount)"

definition startOfMonth :: "int \<Rightarrow> int" where
  "startOfMonth t = setHours (setDate t 1) 0 0 0 0"

definition endOfMonth :: "int \<Rightarrow> int" where
  "endOfMonth t = setHours (setFullYear t (getFullYear t) (getMonth t + 1) 0) 23 59 59 999"


subsection \<open>The calendar is consistent\<close>

lemma DaysInYear_cases: "DaysInYear y = 365 \<or> DaysInYear y = 366"
  by (simp add: DaysInYear_def)

lemma DaysInYear_pos: "0 < DaysInYear y"
  using DaysInYear_cases [of y] by auto

lemma InLeapYear_cases: "InLeapYear y = 0 \<or> InLeapYear y = 1"
  by (simp add: InLeapYear_def)

lemma DaysInYear_InLeapYear: "DaysInYear y = 365 + InLeapYear y"
  using DaysInYear_cases [of y] by (auto simp: InLeapYear_def)

lemma div_step:
  fixes a k :: int
  assumes "0 < k"
  shows "(a + 1) div k = a div k + (if (a + 1) mod k = 0 then 1 else 0)"
proof (cases "a mod k + 1 = k")
  case True
  have "a + 1 = k * (a div k) + (a mod k + 1)"
    by simp
  also have "\<dots> = k * (a div k + 1) + 0"
    using True by (simp add: algebra_simps)
  finally have "(a + 1) div k = a div k + 1" "(a + 1) mod k = 0"
    using assms by (metis int_div_pos_eq order_refl, metis int_mod_pos_eq order_refl)
  then show ?thesis by simp
next
  case False
  have b: "a mod k < k" "0 \<le> a mod k"
    using assms by simp_all
  with False have r: "0 \<le> a mod k + 1" "a mod k + 1 < k"
    by linarith+
  have "a + 1 = k * (a div k) + (a mod k + 1)"
    by simp
  then have "(a + 1) div k = a div k" "(a + 1) mod k = a mod k + 1"
    using r by (metis int_div_pos_eq, metis int_mod_pos_eq)
  moreover have "a mod k + 1 \<noteq> 0" using b by linarith
  ultimately show ?thesis by simp
qed

lemma mod_shift: "(y - c * k) mod k = y mod k" for y c k :: int
proof -
  have "y - c * k = y + (- c) * k" by simp
  then show ?thesis by (metis mod_mult_self1)
qed

lemma leap_step_4: "(y - 1968) div 4 = (y - 1969) div 4 + (if y mod 4 = 0 then 1 else 0)" for y :: int
  using div_step [of 4 "y - 1969"] mod_shift [of y 492 4] by simp

lemma leap_step_100: "(y - 1900) div 100 = (y - 1901) div 100 + (if y mod 100 = 0 then 1 else 0)" for y :: int
  using div_step [of 100 "y - 1901"] mod_shift [of y 19 100] by simp

lemma leap_step_400: "(y - 1600) div 400 = (y - 1601) div 400 + (if y mod 400 = 0 then 1 else 0)" for y :: int
  using div_step [of 400 "y - 1601"] mod_shift [of y 4 400] by simp

lemma mod_400_100: "y mod 400 = 0 \<Longrightarrow> y mod 100 = 0" for y :: int
  using mod_mod_cancel [of 100 400 y] by simp

lemma mod_100_4: "y mod 100 = 0 \<Longrightarrow> y mod 4 = 0" for y :: int
  using mod_mod_cancel [of 4 100 y] by simp

lemma DayFromYear_Suc: "DayFromYear (y + 1) = DayFromYear y + DaysInYear y"
proof -
  have "DayFromYear (y + 1) =
      365 * (y - 1969) + (y - 1968) div 4 - (y - 1900) div 100 + (y - 1600) div 400"
    by (simp add: DayFromYear_def)
  also have "\<dots> = DayFromYear y + 365 + (if y mod 4 = 0 then 1 else 0)
      - (if y mod 100 = 0 then 1 else 0) + (if y mod 400 = 0 then 1 else 0)"
    unfolding leap_step_4 leap_step_100 leap_step_400 DayFromYear_def by simp
  also have "\<dots> = DayFromYear y + DaysInYear y"
    using mod_400_100 [of y] mod_100_4 [of y] by (auto simp: DaysInYear_def)
  finally show ?thesis .
qed

lemma DayFromYear_1970: "DayFromYear 1970 = 0"
  by (simp add: DayFromYear_def)

declare yearUp.simps [simp del] yearDown.simps [simp del]

lemma yearUp_spec:
  "0 \<le> r \<Longrightarrow> yearUp y r = (y', r') \<Longrightarrow>
     DayFromYear y' + r' = DayFromYear y + r \<and> 0 \<le> r' \<and> r' < DaysInYear y'"
proof (induction y r rule: yearUp.induct)
  case (1 y r)
  show ?case
  proof (cases "r < DaysInYear y")
    case True
    with "1.prems" show ?thesis
      by (simp add: yearUp.simps [of y r])
  next
    case False
    then have rec: "yearUp (y + 1) (r - DaysInYear y) = (y', r')"
      using "1.prems" by (simp add: yearUp.simps [of y r])
    from False have "0 \<le> r - DaysInYear y" by simp
    from "1.IH" [OF False this rec] show ?thesis
      by (simp add: DayFromYear_Suc)
  qed
qed

lemma yearDown_spec:
  "r < DaysInYear y \<Longrightarrow> yearDown y r = (y', r') \<Longrightarrow>
     DayFromYear y' + r' = DayFromYear y + r \<and> 0 \<le> r' \<and> r' < DaysInYear y'"
proof (induction y r rule: yearDown.induct)
  case (1 y r)
  show ?case
  proof (cases "0 \<le> r")
    case True
    with "1.prems" show ?thesis
      by (simp add: yearDown.simps [of y r])
  next
    case False
    then have rec: "yearDown (y - 1) (r + DaysInYear (y - 1)) = (y', r')"
      using "1.prems" by (simp add: yearDown.simps [of y r])
    from False have "r + DaysInYear (y - 1) < DaysInYear (y - 1)" by simp
    from "1.IH" [OF False this rec] show ?thesis
      using DayFromYear_Suc [of "y - 1"] by simp
  qed
qed

lemma yearAndDay_spec:
  assumes "yearAndDay d = (y, r)"
  shows "DayFromYear y + r = d \<and> 0 \<le> r \<and> r < DaysInYear y"
proof (cases "0 \<le> d")
  case True
  with assms have "yearUp 1970 d = (y, r)" by (simp add: yearAndDay_def)
  from yearUp_spec [OF True this] show ?thesis by (simp add: DayFromYear_1970)
next
  case False
  with assms have "yearDown 1970 d = (y, r)" by (simp add: yearAndDay_def)
  moreover from False have "d < DaysInYear 1970" using DaysInYear_pos [of 1970] by simp
  ultimately show ?thesis using yearDown_spec by (fastforce simp: DayFromYear_1970)
qed

lemma year_day_of_time:
  "DayFromYear (getFullYear t) + DayWithinYear t = dayNumber t
   \<and> 0 \<le> DayWithinYear t \<and> DayWithinYear t < DaysInYear (getFullYear t)"
  unfolding getFullYear_def DayWithinYear_def
  using yearAndDay_spec [of "dayNumber t" "fst (yearAndDay (dayNumber t))" "snd (yearAndDay (dayNumber t))"]
  by simp

lemma MonthFromDay_range:
  "0 \<le> MonthFromDay leap d \<and> MonthFromDay leap d \<le> 11"
  by (simp add: MonthFromDay_def)

lemma getMonth_range: "0 \<le> getMonth t \<and> getMonth t \<le> 11"
  by (simp add: getMonth_def MonthFromDay_range)

lemma monthStart_MonthFromDay:
  assumes "0 \<le> d" "d < 365 + leap" "leap = 0 \<or> leap = 1"
  shows "monthStart leap (MonthFromDay leap d) \<le> d
    \<and> d < monthStart leap (MonthFromDay leap d) + (if MonthFromDay leap d = 1 then 28 + leap
         else if MonthFromDay leap d = 3 \<or> MonthFromDay leap d = 5 \<or> MonthFromDay leap d = 8
              \<or> MonthFromDay leap d = 10 then 30 else 31)"
  using assms unfolding MonthFromDay_def monthStart_def
  by (auto split: if_splits)

lemma getDate_range:
  "1 \<le> getDate t \<and> getDate t \<le> daysInMonth (getFullYear t) (getMonth t)"
proof -
  let ?y = "getFullYear t"
  have "0 \<le> DayWithinYear t" "DayWithinYear t < 365 + InLeapYear ?y"
    using year_day_of_time [of t] by (simp_all add: DaysInYear_InLeapYear)
  from monthStart_MonthFromDay [OF this InLeapYear_cases]
  show ?thesis
    unfolding getDate_def getMonth_def daysInMonth_def by simp
qed

lemma MakeDay_of_time: "MakeDay (getFullYear t) (getMonth t) (getDate t + n) = dayNumber t + n"
proof -
  have "getMonth t div 12 = 0" "getMonth t mod 12 = getMonth t"
    using getMonth_range [of t] by simp_all
  then show ?thesis
    using year_day_of_time [of t]
    by (simp add: MakeDay_def getDate_def)
qed

lemma MakeDay_month_length:
  assumes "0 \<le> m" "m \<le> 11"
  shows "MakeDay y (m + 1) 1 - MakeDay y m 1 = daysInMonth y m"
proof (cases "m = 11")
  case True
  then show ?thesis
    using InLeapYear_cases [of y]
    by (auto simp: MakeDay_def monthStart_def daysInMonth_def DayFromYear_Suc DaysInYear_InLeapYear)
next
  case False
  with assms have lo: "m \<le> 5 \<Longrightarrow> m = 0 \<or> m = 1 \<or> m = 2 \<or> m = 3 \<or> m = 4 \<or> m = 5"
    and hi: "6 \<le> m \<Longrightarrow> m = 6 \<or> m = 7 \<or> m = 8 \<or> m = 9 \<or> m = 10"
    by linarith+
  have "m \<le> 5 \<or> 6 \<le> m" by linarith
  with lo hi consider "m = 0" | "m = 1" | "m = 2" | "m = 3" | "m = 4" | "m = 5"
    | "m = 6" | "m = 7" | "m = 8" | "m = 9" | "m = 10"
    by blast
  then show ?thesis
    by cases (simp_all add: MakeDay_def monthStart_def daysInMonth_def)
qed

lemma dayNumber_split: "t = dayNumber t * msPerDay + TimeWithinDay t"
  by (simp add: dayNumber_def TimeWithinDay_def)

lemma TimeWithinDay_range: "0 \<le> TimeWithinDay t \<and> TimeWithinDay t < msPerDay"
  using msPerDay_pos by (simp add: TimeWithinDay_def)

lemma setDate_shift: "setDate t (getDate t + n) = t + n * msPerDay"
proof -
  have "setDate t (getDate t + n) = (dayNumber t + n) * msPerDay + TimeWithinDay t"
    by (simp add: setDate_def setFullYear_def MakeDay_of_time)
  also have "\<dots> = (dayNumber t * msPerDay + TimeWithinDay t) + n * msPerDay"
    by (simp add: algebra_simps)
  also have "\<dots> = t + n * msPerDay"
    using dayNumber_split [of t] by simp
  finally show ?thesis .
qed

lemma addDays_eq: "addDays t n = t + n * msPerDay"
  by (simp add: addDays_def setDate_shift)

lemma subDays_eq: "subDays t n = t - n * msPerDay"
  by (simp add: subDays_def addDays_eq)

lemma dayNumber_aligned: "dayNumber (d * msPerDay + r) = d + r div msPerDay"
  using msPerDay_pos by (simp add: dayNumber_def)

lemma setHours_0: "setHours t 0 0 0 0 = startOfDay t"
  by (simp add: setHours_def startOfDay_eq)

lemma startOfMonth_eq:
  "startOfMonth t = MakeDay (getFullYear t) (getMonth t) 1 * msPerDay"
proof -
  have "dayNumber (setDate t 1) = MakeDay (getFullYear t) (getMonth t) 1"
    using TimeWithinDay_range [of t]
    by (simp add: setDate_def setFullYear_def dayNumber_aligned)
  then show ?thesis by (simp add: startOfMonth_def setHours_def)
qed

lemma endOfMonth_eq:
  "endOfMonth t = MakeDay (getFullYear t) (getMonth t + 1) 0 * msPerDay + (msPerDay - 1)"
proof -
  have "dayNumber (setFullYear t (getFullYear t) (getMonth t + 1) 0)
      = MakeDay (getFullYear t) (getMonth t + 1) 0"
    using TimeWithinDay_range [of t]
    by (simp add: setFullYear_def dayNumber_aligned)
  then show ?thesis by (simp add: endOfMonth_def setHours_def msPerDay_def)
qed

section \<open>Strings and number formatting\<close>

text \<open>
  A \<open>string\<close> is a list of characters; a character stands for the JavaScript code unit of
  the same number (the code units below 256). Strings are compared as JavaScript compares
  them, code unit by code unit, a proper prefix being smaller.
\<close>

fun js_less :: "string \<Rightarrow> string \<Rightarrow> bool" where
  "js_less [] [] = False"
| "js_less [] (y # ys) = True"
| "js_less (x # xs) [] = False"
| "js_less (x # xs) (y # ys) =
     (if (of_char x :: nat) < of_char y then True
      else if (of_char y :: nat) < of_char x then False
      else js_less xs ys)"

text \<open>The white space that \<open>trim\<close> removes, among the code units below 256.\<close>

definition isWhiteSpace :: "char \<Rightarrow> bool" where
  "isWhiteSpace c = ((of_char c :: nat) \<in> {9, 10, 11, 12, 13, 32, 160})"

definition trim :: "string \<Rightarrow> string" where
  "trim s = rev (dropWhile isWhiteSpace (rev (dropWhile isWhiteSpace s)))"

definition digitChar :: "nat \<Rightarrow> char" where
  "digitChar n = ''0123456789'' ! n"

fun showNat :: "nat \<Rightarrow> string" where
  "showNat n = (if n < 10 then [digitChar n] else showNat (n div 10) @ [digitChar (n mod 10)])"

declare showNat.simps [simp del]

definition padStart :: "nat \<Rightarrow> char \<Rightarrow> string \<Rightarrow> string" where
  "padStart targetLength c s = replicate (targetLength - length s) c @ s"

definition addLeadingZeros :: "int \<Rightarrow> nat \<Rightarrow> string" where
  "addLeadingZeros number targetLength =
     (if number < 0 then ''-'' else '''') @ padStart targetLength CHR ''0'' (showNat (nat \<bar>number\<bar>))"

text \<open>\<open>Array.prototype.join\<close> on an array of strings.\<close>

fun join :: "string \<Rightarrow> string list \<Rightarrow> string" where
  "join sep [] = ''''"
| "join sep [x] = x"
| "join sep (x # y # xs) = x @ sep @ join sep (y # xs)"

text \<open>\<open>format(date, 'yyyy-MM-dd')\<close>: the year of the era, padded to four digits.\<close>

definition format_yyyy_MM_dd :: "int \<Rightarrow> string" where
  "format_yyyy_MM_dd t =
     (let signedYear = getFullYear t;
          year = (if 0 < signedYear then signedYear else 1 - signedYear)
      in addLeadingZeros year 4 @ ''-'' @ addLeadingZeros (getMonth t + 1) 2
           @ ''-'' @ addLeadingZeros (getDate t) 2)"

text \<open>\<open>format(date, 'EEE')\<close>: the abbreviated name of the day of the week.\<close>

definition format_EEE :: "int \<Rightarrow> string" where
  "format_EEE t = [''Sun'', ''Mon'', ''Tue'', ''Wed'', ''Thu'', ''Fri'', ''Sat''] ! nat (getDay t)"

subsection \<open>Intervals of days\<close>

lemma startOfDay_add_day: "startOfDay (t + n * msPerDay) = startOfDay t + n * msPerDay"
  by (simp add: startOfDay_def)

lemma next_day_later: "t < setHours (setDate t (getDate t + 1)) 0 0 0 0"
proof -
  have "setHours (setDate t (getDate t + 1)) 0 0 0 0 = startOfDay t + msPerDay"
    using startOfDay_add_day [of t 1] setDate_shift [of t 1] by (simp add: setHours_0)
  moreover have "t - startOfDay t < msPerDay"
    using msPerDay_pos by (simp add: startOfDay_def)
  ultimately show ?thesis by simp
qed

text \<open>
  \<open>eachDayOfInterval\<close> moves a date to the start of its day, and steps it by
  \<open>setDate(getDate() + 1)\<close> and \<open>setHours(0, 0, 0, 0)\<close> while it is not after the end.
  The pages call it with a start that is not after the end.
\<close>

function eachDayLoop :: "int \<Rightarrow> int \<Rightarrow> int list" where
  "eachDayLoop date endTime =
     (if date \<le> endTime
      then date # eachDayLoop (setHours (setDate date (getDate date + 1)) 0 0 0 0) endTime
      else [])"
  by pat_completeness auto
termination
proof (relation "measure (\<lambda>(date, endTime). nat (endTime - date + 1))")
  show "wf (measure (\<lambda>(date, endTime). nat (endTime - date + 1)))"
    by simp
next
  fix date endTime :: int
  assume "date \<le> endTime"
  then show "((setHours (setDate date (getDate date + 1)) 0 0 0 0, endTime), (date, endTime))
      \<in> measure (\<lambda>(date, endTime). nat (endTime - date + 1))"
    using next_day_later [of date] by simp
qed

declare eachDayLoop.simps [simp del]

definition eachDayOfInterval :: "int \<Rightarrow> int \<Rightarrow> int list" where
  "eachDayOfInterval start endTime = eachDayLoop (setHours start 0 0 0 0) endTime"

section \<open>AdminDashboard: the performance line chart\<close>

datatype ChartRange = Week | Month

record DataPoint =
  day :: string
  dayCount :: nat
  fullDate :: int

text \<open>\<open>t.completedAt &&\<close> holds for a completion timestamp that is set and not 0.\<close>

definition completedOn :: "int \<Rightarrow> Task \<Rightarrow> bool" where
  "completedOn d t =
     (completed t \<and>
      (case completedAt t of None \<Rightarrow> False | Some c \<Rightarrow> c \<noteq> 0 \<and> isSameDay c d))"

definition chartStart :: "ChartRange \<Rightarrow> int \<Rightarrow> int" where
  "chartStart rng today = (if rng = Week then subDays today 6 else startOfMonth today)"

definition chartEnd :: "ChartRange \<Rightarrow> int \<Rightarrow> int" where
  "chartEnd rng today = (if rng = Week then today else endOfMonth today)"

definition dataPoints :: "Task list \<Rightarrow> ChartRange \<Rightarrow> int \<Rightarrow> DataPoint list" where
  "dataPoints tasks rng today =
     map (\<lambda>d. \<lparr>day = (if rng = Week then format_EEE d else showNat (nat (getDate d))),
               dayCount = length (filter (completedOn d) tasks),
               fullDate = d\<rparr>)
       (eachDayOfInterval (chartStart rng today) (chartEnd rng today))"

subsection \<open>The length of the series\<close>

lemma div_day_less: "0 < k \<Longrightarrow> (k * msPerDay - 1) div msPerDay = k - 1"
proof -
  assume "0 < k"
  have "k * msPerDay - 1 = msPerDay * (k - 1) + (msPerDay - 1)"
    by (simp add: algebra_simps)
  moreover have "0 \<le> msPerDay - 1" "msPerDay - 1 < msPerDay"
    using msPerDay_pos by simp_all
  ultimately show ?thesis
    by (metis int_div_pos_eq)
qed

lemma eachDayLoop_aligned:
  "startOfDay date = date \<Longrightarrow>
     eachDayLoop date endTime =
       (if date \<le> endTime then date # eachDayLoop (date + msPerDay) endTime else [])"
proof -
  assume a: "startOfDay date = date"
  have "setHours (setDate date (getDate date + 1)) 0 0 0 0 = date + msPerDay"
    using startOfDay_add_day [of date 1] setDate_shift [of date 1] a by (simp add: setHours_0)
  then show ?thesis
    by (simp add: eachDayLoop.simps [of date endTime])
qed

lemma eachDayLoop_days:
  "startOfDay date = date \<Longrightarrow>
     eachDayLoop date endTime =
       map (\<lambda>i. date + int i * msPerDay) [0 ..< nat ((endTime - date) div msPerDay + 1)]"
proof (induction date endTime rule: eachDayLoop.induct)
  case (1 date endTime)
  have al: "startOfDay (date + msPerDay) = date + msPerDay"
    using startOfDay_add_day [of date 1] "1.prems" by simp
  have nx: "setHours (setDate date (getDate date + 1)) 0 0 0 0 = date + msPerDay"
    using startOfDay_add_day [of date 1] setDate_shift [of date 1] "1.prems" by (simp add: setHours_0)
  show ?case
  proof (cases "date \<le> endTime")
    case False
    then have "(endTime - date) div msPerDay < 0"
      using msPerDay_pos by (simp add: div_neg_pos_less0)
    with False show ?thesis
      by (simp add: eachDayLoop.simps [of date endTime])
  next
    case True
    have ih: "eachDayLoop (date + msPerDay) endTime =
        map (\<lambda>i. date + msPerDay + int i * msPerDay)
          [0 ..< nat ((endTime - (date + msPerDay)) div msPerDay + 1)]"
      using "1.IH" [OF True] al nx by simp
    have dv: "(endTime - (date + msPerDay)) div msPerDay + 1 = (endTime - date) div msPerDay"
    proof -
      have "endTime - date = (endTime - (date + msPerDay)) + 1 * msPerDay" by simp
      then have "(endTime - date) div msPerDay = (endTime - (date + msPerDay)) div msPerDay + 1"
        using msPerDay_pos by (metis div_mult_self1 less_irrefl add.commute)
      then show ?thesis by simp
    qed
    have nn: "0 \<le> (endTime - date) div msPerDay"
      using True msPerDay_pos by (simp add: pos_imp_zdiv_nonneg_iff)
    let ?n = "nat ((endTime - date) div msPerDay)"
    have "eachDayLoop date endTime = date # eachDayLoop (date + msPerDay) endTime"
      using True eachDayLoop_aligned [OF "1.prems", of endTime] by simp
    also have "\<dots> = date # map (\<lambda>i. date + msPerDay + int i * msPerDay) [0 ..< ?n]"
      using ih dv by simp
    also have "\<dots> = map (\<lambda>i. date + int i * msPerDay) (0 # map Suc [0 ..< ?n])"
      by (simp add: algebra_simps)
    also have "0 # map Suc [0 ..< ?n] = [0 ..< Suc ?n]"
      by (simp add: upt_conv_Cons map_Suc_upt del: upt_Suc)
    also have "Suc ?n = nat ((endTime - date) div msPerDay + 1)"
      using nn by simp
    finally show ?thesis .
  qed
qed

lemma week_length: "length (eachDayOfInterval (subDays today 6) today) = 7"
proof -
  let ?s = "setHours (subDays today 6) 0 0 0 0"
  have s: "?s = startOfDay today - 6 * msPerDay"
    using startOfDay_add_day [of today "- 6"] by (simp add: setHours_0 subDays_eq)
  have al: "startOfDay ?s = ?s"
    using startOfDay_add_day [of "startOfDay today" "- 6"]
    by (simp add: s startOfDay_eq dayNumber_def)
  have "today - ?s = 6 * msPerDay + TimeWithinDay today"
    by (simp add: s startOfDay_def TimeWithinDay_def)
  then have "(today - ?s) div msPerDay = 6"
    using TimeWithinDay_range [of today] msPerDay_pos
    by (simp add: div_pos_pos_trivial)
  then show ?thesis
    unfolding eachDayOfInterval_def eachDayLoop_days [OF al] by simp
qed

lemma month_length:
  "length (eachDayOfInterval (startOfMonth today) (endOfMonth today))
     = nat (daysInMonth (getFullYear today) (getMonth today))"
proof -
  let ?y = "getFullYear today" and ?m = "getMonth today"
  let ?s = "setHours (startOfMonth today) 0 0 0 0"
  have s: "?s = MakeDay ?y ?m 1 * msPerDay"
    by (simp add: setHours_0 startOfMonth_eq startOfDay_eq dayNumber_def)
  have al: "startOfDay ?s = ?s"
    by (simp add: s startOfDay_eq dayNumber_def)
  have len: "MakeDay ?y (?m + 1) 1 - MakeDay ?y ?m 1 = daysInMonth ?y ?m"
    using MakeDay_month_length getMonth_range by simp
  have pos: "0 < daysInMonth ?y ?m"
    using InLeapYear_cases [of ?y] by (auto simp: daysInMonth_def)
  have "MakeDay ?y (?m + 1) 0 = MakeDay ?y (?m + 1) 1 - 1"
    by (simp add: MakeDay_def Let_def)
  with len have e0: "MakeDay ?y (?m + 1) 0 = MakeDay ?y ?m 1 + daysInMonth ?y ?m - 1"
    by simp
  have "endOfMonth today - ?s = daysInMonth ?y ?m * msPerDay - 1"
    unfolding endOfMonth_eq s e0 by (simp add: algebra_simps)
  then have "(endOfMonth today - ?s) div msPerDay = daysInMonth ?y ?m - 1"
    using div_day_less [OF pos] by simp
  then show ?thesis
    unfolding eachDayOfInterval_def eachDayLoop_days [OF al] by simp
qed

section \<open>StudentDashboard: adding and editing a task\<close>

text \<open>
  A handler returns at once, or alerts, or passes a document to the backend. Whether the
  backend accepts the write is outside the repository and is a parameter of the model; a
  write that fails is caught and alerted. \<open>parseISO\<close> is a function of the date library
  that turns a string into a \<open>Date\<close>, valid or invalid; the handlers take it as a
  parameter, and what is proved about them holds for every such function.
\<close>

datatype 'a Outcome = Returned | Alerted string | Wrote 'a

record NewTask =
  new_userId :: string
  new_title :: string
  new_dueDate :: jsNumber
  new_completed :: bool
  new_createdAt :: int

record TaskEdit =
  edit_title :: string
  edit_dueDate :: jsNumber

definition handleAddTask ::
  "(string \<Rightarrow> Date) \<Rightarrow> string option \<Rightarrow> string \<Rightarrow> string \<Rightarrow> int \<Rightarrow> bool
     \<Rightarrow> NewTask Outcome" where
  "handleAddTask parseISO user newTaskTitle newTaskDate now addDocOk =
     (case user of
        None \<Rightarrow> Returned
      | Some u \<Rightarrow>
          if trim newTaskTitle = '''' then Alerted ''Please enter a task title''
          else if js_less newTaskDate (format_yyyy_MM_dd now)
          then Alerted ''You cannot schedule tasks for the past!''
          else if addDocOk
          then Wrote \<lparr>new_userId = u, new_title = trim newTaskTitle,
                  new_dueDate = getTime (startOfDay_Date (parseISO newTaskDate)),
                  new_completed = False, new_createdAt = now\<rparr>
          else Alerted ''Failed to add task. Please check your internet connection.'')"

definition handleUpdateTask ::
  "(string \<Rightarrow> Date) \<Rightarrow> Task option \<Rightarrow> string \<Rightarrow> string \<Rightarrow> bool
     \<Rightarrow> (string \<times> TaskEdit) Outcome" where
  "handleUpdateTask parseISO taskToEdit editTitle editDate updateDocOk =
     (case taskToEdit of
        None \<Rightarrow> Returned
      | Some task \<Rightarrow>
          if trim editTitle = '''' then Alerted ''Task title cannot be empty''
          else if updateDocOk
          then Wrote (id task,
                  \<lparr>edit_title = trim editTitle,
                   edit_dueDate = getTime (startOfDay_Date (parseISO editDate))\<rparr>)
          else Alerted ''Failed to update task.'')"

subsection \<open>Reading the value of a date input\<close>

text \<open>
  For evaluating the handlers at concrete strings: the reading of the value of a date
  input. The calendar date \<open>YYYY-MM-DD\<close> is the start of that day if the month has such a
  day; the empty string and a year of more than four digits are invalid, and so is every
  other string here. This is how the library's \<open>parseISO\<close> reads these values; it reads
  further notations of ISO 8601 as well, which the function below does not.
\<close>

definition isDigit :: "char \<Rightarrow> bool" where
  "isDigit c = (48 \<le> (of_char c :: nat) \<and> (of_char c :: nat) \<le> 57)"

definition digitsValue :: "string \<Rightarrow> int" where
  "digitsValue s = foldl (\<lambda>a c. 10 * a + (int (of_char c) - 48)) 0 s"

definition validateDate :: "int \<Rightarrow> int \<Rightarrow> int \<Rightarrow> bool" where
  "validateDate year month date =
     (0 \<le> month \<and> month \<le> 11 \<and> 1 \<le> date \<and> date \<le> daysInMonth year month)"

definition parseCalendarDate :: "string \<Rightarrow> Date" where
  "parseCalendarDate s =
     (if length s = 10 \<and> s ! 4 = CHR ''-'' \<and> s ! 7 = CHR ''-''
         \<and> list_all isDigit (take 4 s) \<and> list_all isDigit (take 2 (drop 5 s))
         \<and> list_all isDigit (drop 8 s)
      then
        (let year = digitsValue (take 4 s);
             month = digitsValue (take 2 (drop 5 s)) - 1;
             date = digitsValue (drop 8 s)
         in if validateDate year month date
            then DateOf (MakeDay year month date * msPerDay)
            else InvalidDate)
      else InvalidDate)"

text \<open>The string of a calendar date, month counted from 1, as a date input writes it.\<close>

definition isoDate :: "nat \<Rightarrow> nat \<Rightarrow> nat \<Rightarrow> string" where
  "isoDate y m d =
     [digitChar (y div 1000), digitChar (y div 100 mod 10), digitChar (y div 10 mod 10),
      digitChar (y mod 10), CHR ''-'', digitChar (m div 10), digitChar (m mod 10), CHR ''-'',
      digitChar (d div 10), digitChar (d mod 10)]"

subsection \<open>Calendar date strings\<close>

lemma digitChar_digit:
  assumes "n < 10"
  shows "isDigit (digitChar n)" and "int (of_char (digitChar n)) - 48 = int n"
proof -
  have "list_all isDigit ''0123456789''"
    by (simp add: isDigit_def)
  with assms show "isDigit (digitChar n)"
    by (simp add: digitChar_def list_all_length)
  have e: "map (\<lambda>c. int (of_char c) - 48) ''0123456789'' = map int [0 ..< 10]"
    by code_simp
  have len: "n < length ''0123456789''"
    using assms by simp
  have "int (of_char (''0123456789'' ! n)) - 48
      = map (\<lambda>c. int (of_char c) - 48) ''0123456789'' ! n"
    by (rule nth_map [OF len, symmetric])
  also have "\<dots> = map int [0 ..< 10] ! n"
    by (simp only: e)
  also have "\<dots> = int n"
    using assms by (simp del: upt_Suc)
  finally show "int (of_char (digitChar n)) - 48 = int n"
    by (simp only: digitChar_def)
qed

lemma four_digits:
  fixes y :: nat
  shows "10 * (10 * (10 * (y div 1000) + y div 100 mod 10) + y div 10 mod 10) + y mod 10 = y"
proof -
  have a: "y div 100 = y div 10 div 10" and b: "y div 1000 = y div 100 div 10"
    by (simp_all add: div_mult2_eq)
  have "10 * (y div 1000) + y div 100 mod 10 = y div 100"
    unfolding b by simp
  then have "10 * (10 * (y div 1000) + y div 100 mod 10) + y div 10 mod 10 = y div 10"
    unfolding a by simp
  then show ?thesis by simp
qed

lemma two_digits: "10 * (m div 10) + m mod 10 = m" for m :: nat
  by simp

lemma parseCalendarDate_isoDate:
  assumes "y < 10000" and "1 \<le> m" and "m \<le> 12" and "1 \<le> d"
    and "int d \<le> daysInMonth (int y) (int m - 1)"
  shows "parseCalendarDate (isoDate y m d) = DateOf (MakeDay (int y) (int m - 1) (int d) * msPerDay)"
proof -
  have "daysInMonth (int y) (int m - 1) \<le> 31"
    using InLeapYear_cases [of "int y"] by (auto simp: daysInMonth_def)
  with assms have d: "d < 100" by linarith
  have dg: "y div 1000 < 10" "y div 100 mod 10 < 10" "y div 10 mod 10 < 10" "y mod 10 < 10"
    "m div 10 < 10" "m mod 10 < 10" "d div 10 < 10" "d mod 10 < 10"
    using assms d by simp_all
  have yv: "digitsValue (take 4 (isoDate y m d)) = int y"
  proof -
    have "digitsValue (take 4 (isoDate y m d)) =
        int (10 * (10 * (10 * (y div 1000) + y div 100 mod 10) + y div 10 mod 10) + y mod 10)"
      using dg by (simp add: isoDate_def digitsValue_def digitChar_digit)
    then show ?thesis by (simp only: four_digits)
  qed
  have mv: "digitsValue (take 2 (drop 5 (isoDate y m d))) = int m"
  proof -
    have "digitsValue (take 2 (drop 5 (isoDate y m d))) = 10 * int (m div 10) + int (m mod 10)"
      using dg by (simp add: isoDate_def digitsValue_def digitChar_digit)
    also have "\<dots> = int (10 * (m div 10) + m mod 10)"
      by (simp only: of_nat_add of_nat_mult of_nat_numeral)
    finally show ?thesis by (simp only: two_digits)
  qed
  have dv: "digitsValue (drop 8 (isoDate y m d)) = int d"
  proof -
    have "digitsValue (drop 8 (isoDate y m d)) = 10 * int (d div 10) + int (d mod 10)"
      using dg by (simp add: isoDate_def digitsValue_def digitChar_digit)
    also have "\<dots> = int (10 * (d div 10) + d mod 10)"
      by (simp only: of_nat_add of_nat_mult of_nat_numeral)
    finally show ?thesis by (simp only: two_digits)
  qed
  have shape: "length (isoDate y m d) = 10" "isoDate y m d ! 4 = CHR ''-''"
    "isoDate y m d ! 7 = CHR ''-''"
    by (simp_all add: isoDate_def)
  have digs: "list_all isDigit (take 4 (isoDate y m d))"
    "list_all isDigit (take 2 (drop 5 (isoDate y m d)))"
    "list_all isDigit (drop 8 (isoDate y m d))"
    using dg by (simp_all add: isoDate_def digitChar_digit)
  have "validateDate (int y) (int m - 1) (int d)"
    using assms by (simp add: validateDate_def)
  then show ?thesis
    unfolding parseCalendarDate_def using shape digs by (simp add: yv mv dv)
qed

lemma startOfDay_day_start: "startOfDay (k * msPerDay) = k * msPerDay"
  by (simp add: startOfDay_def)

subsection \<open>Examples\<close>

text \<open>14 November 2023, noon, was a Tuesday; 2024 is a leap year and 2023 is not; a
  year of five digits does not parse.\<close>

lemma calendar_examples:
  "format_yyyy_MM_dd 1699963200000 = ''2023-11-14''"
  "format_EEE 1699963200000 = ''Tue''"
  "format_yyyy_MM_dd (- 1) = ''1969-12-31''"
  "parseCalendarDate ''2024-02-29'' = DateOf 1709164800000"
  "parseCalendarDate ''2023-02-29'' = InvalidDate"
  "parseCalendarDate ''12345-01-01'' = InvalidDate"
  by code_simp+

section \<open>Double-precision arithmetic\<close>

text \<open>
  JavaScript numbers are IEEE 754 doubles. A finite double is modelled by the rational
  number it denotes. Division and multiplication return the exact result rounded to the
  nearest double, ties to the even mantissa; \<open>Math.round\<close> returns the nearest integer,
  ties upwards. The model covers the normal range of doubles (no overflow to infinity and
  no subnormal results), which holds every quotient of two array lengths and its
  product with 100.
\<close>

definition pow2 :: "int \<Rightarrow> rat" where
  "pow2 e = 2 powi e"

text \<open>The binary exponent of a positive number \<open>x\<close>: \<open>2^e \<le> x < 2^(e+1)\<close>.\<close>

function expUp :: "rat \<Rightarrow> int" where
  "expUp x = (if x < 2 then 0 else expUp (x / 2) + 1)"
  by pat_completeness auto
termination
proof (relation "measure (\<lambda>x. nat \<lfloor>x\<rfloor>)")
  show "wf (measure (\<lambda>x. nat \<lfloor>x\<rfloor>))"
    by simp
next
  fix x :: rat
  assume a: "\<not> x < 2"
  then have f: "2 \<le> \<lfloor>x\<rfloor>"
    by (simp add: le_floor_iff)
  then have "(2::rat) \<le> of_int \<lfloor>x\<rfloor>"
    by linarith
  moreover have "x < of_int \<lfloor>x\<rfloor> + 1"
    by linarith
  ultimately have "x / 2 < of_int \<lfloor>x\<rfloor>"
    by linarith
  then have "\<lfloor>x / 2\<rfloor> < \<lfloor>x\<rfloor>"
    by (simp only: floor_less_iff)
  with f show "(x / 2, x) \<in> measure (\<lambda>x. nat \<lfloor>x\<rfloor>)"
    by simp
qed

function expDown :: "rat \<Rightarrow> int" where
  "expDown x = (if x \<le> 0 \<or> 1 \<le> x then 0 else expDown (2 * x) - 1)"
  by pat_completeness auto
termination
proof (relation "measure (\<lambda>x. nat \<lceil>1 / x\<rceil>)")
  show "wf (measure (\<lambda>x. nat \<lceil>1 / x\<rceil>))"
    by simp
next
  fix x :: rat
  assume a: "\<not> (x \<le> 0 \<or> 1 \<le> x)"
  then have x: "0 < x" "x < 1" by simp_all
  define y where "y = 1 / x"
  have "1 < y" using x by (simp add: y_def)
  then have c: "2 \<le> \<lceil>y\<rceil>"
    by (simp add: less_ceiling_iff)
  then have "(2::rat) \<le> of_int \<lceil>y\<rceil>"
    by linarith
  moreover have "y \<le> of_int \<lceil>y\<rceil>"
    by (rule le_of_int_ceiling)
  ultimately have "y / 2 \<le> of_int \<lceil>y\<rceil> - 1"
    by linarith
  moreover have "1 / (2 * x) = y / 2"
    by (simp add: y_def)
  ultimately have "1 / (2 * x) \<le> of_int (\<lceil>y\<rceil> - 1)"
    by simp
  then have "\<lceil>1 / (2 * x)\<rceil> \<le> \<lceil>y\<rceil> - 1"
    by (simp only: ceiling_le_iff)
  with c x show "(2 * x, x) \<in> measure (\<lambda>x. nat \<lceil>1 / x\<rceil>)"
    by (simp add: y_def)
qed

declare expUp.simps [simp del] expDown.simps [simp del]

definition binExp :: "rat \<Rightarrow> int" where
  "binExp x = (if 1 \<le> x then expUp x else expDown x)"

definition roundHalfEven :: "rat \<Rightarrow> int" where
  "roundHalfEven x =
     (let f = \<lfloor>x\<rfloor>; r = x - of_int f
      in if r < 1 / 2 then f else if 1 / 2 < r then f + 1 else if even f then f else f + 1)"

definition roundToDouble :: "rat \<Rightarrow> rat" where
  "roundToDouble x =
     (if x = 0 then 0
      else if x < 0 then - (of_int (roundHalfEven (- x / pow2 (binExp (- x) - 52))) * pow2 (binExp (- x) - 52))
      else of_int (roundHalfEven (x / pow2 (binExp x - 52))) * pow2 (binExp x - 52))"

definition fdiv :: "rat \<Rightarrow> rat \<Rightarrow> rat" where
  "fdiv x y = roundToDouble (x / y)"

definition fmul :: "rat \<Rightarrow> rat \<Rightarrow> rat" where
  "fmul x y = roundToDouble (x * y)"

definition Math_round :: "rat \<Rightarrow> int" where
  "Math_round x = \<lfloor>x + 1 / 2\<rfloor>"

section \<open>Completion rate\<close>

text \<open>
  Both pages compute \<open>total ? Math.round((completed / total) * 100) : 0\<close>: the student
  view over the user's tasks, the admin statistics over all tasks.
\<close>

definition completionRate :: "nat \<Rightarrow> nat \<Rightarrow> int" where
  "completionRate completedCount totalCount =
     (if totalCount = 0 then 0
      else Math_round (fmul (fdiv (of_nat completedCount) (of_nat totalCount)) 100))"

definition studentCompletionRate :: "Task list \<Rightarrow> int" where
  "studentCompletionRate tasks = completionRate (length (filter completed tasks)) (length tasks)"

text \<open>The rate as the specification words it: the percentage, rounded to the nearest
  integer, a half upwards.\<close>

definition specRate :: "nat \<Rightarrow> nat \<Rightarrow> int" where
  "specRate completedCount totalCount =
     (if totalCount = 0 then 0 else \<lfloor>of_nat completedCount / of_nat totalCount * 100 + (1 / 2 :: rat)\<rfloor>)"

subsection \<open>Powers of two and binary exponents\<close>

lemma pow2_pos: "0 < pow2 e"
  by (simp add: pow2_def zero_less_power_int)

lemma pow2_add: "pow2 (a + b) = pow2 a * pow2 b"
  by (simp add: pow2_def power_int_add)

lemma pow2_0: "pow2 0 = 1"
  by (simp add: pow2_def)

lemma pow2_1: "pow2 1 = 2"
  by (simp add: pow2_def)

lemma pow2_Suc: "pow2 (e + 1) = 2 * pow2 e"
  by (simp add: pow2_add pow2_1)

lemma pow2_pred: "pow2 (e - 1) = pow2 e / 2"
  using pow2_Suc [of "e - 1"] by simp

lemma pow2_minus_1: "pow2 (- 1) = 1 / 2"
  using pow2_pred [of 0] by (simp add: pow2_0)

lemma pow2_nat: "0 \<le> e \<Longrightarrow> pow2 e = of_int (2 ^ nat e)"
  by (simp add: pow2_def power_int_nonneg_exp)

lemma pow2_mono: "a \<le> b \<Longrightarrow> pow2 a \<le> pow2 b"
  by (simp add: pow2_def power_int_increasing)

lemma pow2_between: "pow2 a \<le> x \<Longrightarrow> x < pow2 b \<Longrightarrow> a < b"
  using pow2_mono [of b a] by (cases "a < b") auto

lemma expUp_spec: "1 \<le> x \<Longrightarrow> pow2 (expUp x) \<le> x \<and> x < pow2 (expUp x + 1)"
proof (induction x rule: expUp.induct)
  case (1 x)
  show ?case
  proof (cases "x < 2")
    case True
    with "1.prems" show ?thesis
      by (simp add: expUp.simps [of x] pow2_0 pow2_1)
  next
    case False
    then have "1 \<le> x / 2" by simp
    from "1.IH" [OF False this]
    have "pow2 (expUp (x / 2)) \<le> x / 2" "x / 2 < pow2 (expUp (x / 2) + 1)"
      by simp_all
    then have b: "2 * pow2 (expUp (x / 2)) \<le> x" "x < 2 * pow2 (expUp (x / 2) + 1)"
      by linarith+
    have unf: "expUp x = expUp (x / 2) + 1"
      using False by (simp add: expUp.simps [of x])
    have "pow2 (expUp (x / 2) + 1) \<le> x"
      using b(1) by (simp only: pow2_Suc)
    moreover have "x < pow2 (expUp (x / 2) + 1 + 1)"
      using b(2) by (simp only: pow2_Suc [of "expUp (x / 2) + 1"])
    ultimately show ?thesis
      by (simp only: unf)
  qed
qed

lemma expDown_spec:
  "0 < x \<Longrightarrow> x < 1 \<Longrightarrow> pow2 (expDown x) \<le> x \<and> x < pow2 (expDown x + 1)"
proof (induction x rule: expDown.induct)
  case (1 x)
  from "1.prems" have nb: "\<not> (x \<le> 0 \<or> 1 \<le> x)" by simp
  then have unf: "expDown x = expDown (2 * x) - 1"
    by (simp add: expDown.simps [of x])
  show ?case
  proof (cases "2 * x < 1")
    case False
    then have "expDown (2 * x) = 0"
      by (simp add: expDown.simps [of "2 * x"])
    with False "1.prems" show ?thesis
      by (simp add: unf pow2_0 pow2_minus_1)
  next
    case True
    from "1.prems" have "0 < 2 * x" by simp
    from "1.IH" [OF nb this True]
    have "pow2 (expDown (2 * x)) \<le> 2 * x" "2 * x < pow2 (expDown (2 * x) + 1)"
      by simp_all
    then have "pow2 (expDown (2 * x)) / 2 \<le> x" "x < pow2 (expDown (2 * x) + 1) / 2"
      by linarith+
    then show ?thesis
      using pow2_pred [of "expDown (2 * x)"] pow2_pred [of "expDown (2 * x) + 1"]
      by (simp add: unf)
  qed
qed

lemma binExp_spec:
  assumes "0 < x"
  shows "pow2 (binExp x) \<le> x" and "x < pow2 (binExp x + 1)"
  using assms expUp_spec [of x] expDown_spec [of x]
  by (auto simp: binExp_def)

subsection \<open>Rounding to an integer\<close>

lemma roundHalfEven_cases:
  "roundHalfEven x = \<lfloor>x\<rfloor> \<and> x - of_int \<lfloor>x\<rfloor> \<le> 1 / 2
   \<or> roundHalfEven x = \<lfloor>x\<rfloor> + 1 \<and> 1 / 2 \<le> x - of_int \<lfloor>x\<rfloor>"
  by (auto simp: roundHalfEven_def Let_def)

lemma roundHalfEven_error: "\<bar>of_int (roundHalfEven x) - x\<bar> \<le> 1 / 2"
proof -
  have "of_int \<lfloor>x\<rfloor> \<le> x" "x < of_int \<lfloor>x\<rfloor> + 1"
    by linarith+
  with roundHalfEven_cases [of x] show ?thesis
    by (auto simp: abs_le_iff)
qed

lemma roundHalfEven_le:
  assumes "x \<le> of_int N"
  shows "roundHalfEven x \<le> N"
proof (cases "x = of_int N")
  case True
  then show ?thesis by (simp add: roundHalfEven_def)
next
  case False
  with assms have "x < of_int N" by simp
  then have "\<lfloor>x\<rfloor> < N" by (simp add: floor_less_iff)
  with roundHalfEven_cases [of x] show ?thesis by auto
qed

lemma roundHalfEven_ge:
  assumes "of_int N \<le> x"
  shows "N \<le> roundHalfEven x"
proof -
  from assms have "N \<le> \<lfloor>x\<rfloor>" by (simp add: le_floor_iff)
  with roundHalfEven_cases [of x] show ?thesis by auto
qed

subsection \<open>Rounding to a double\<close>

lemma roundToDouble_pos:
  "0 < x \<Longrightarrow> roundToDouble x
     = of_int (roundHalfEven (x / pow2 (binExp x - 52))) * pow2 (binExp x - 52)"
  by (simp add: roundToDouble_def)

lemma roundToDouble_nonneg:
  assumes "0 \<le> x"
  shows "0 \<le> roundToDouble x"
proof (cases "x = 0")
  case True
  then show ?thesis by (simp add: roundToDouble_def)
next
  case False
  with assms have x: "0 < x" by simp
  have "of_int 0 \<le> x / pow2 (binExp x - 52)"
    using x pow2_pos [of "binExp x - 52"] by simp
  then have "0 \<le> roundHalfEven (x / pow2 (binExp x - 52))"
    by (rule roundHalfEven_ge)
  then show ?thesis
    using pow2_pos [of "binExp x - 52"] by (simp add: roundToDouble_pos [OF x])
qed

lemma roundToDouble_le_int:
  assumes "0 < x" and "x \<le> of_int B" and "x < pow2 53"
  shows "roundToDouble x \<le> of_int B"
proof -
  let ?e = "binExp x"
  have "?e < 53"
    using pow2_between [OF binExp_spec(1) [OF assms(1)] assms(3)] .
  then have k: "0 \<le> 52 - ?e" by simp
  have inv: "pow2 (52 - ?e) * pow2 (?e - 52) = 1"
    using pow2_add [of "52 - ?e" "?e - 52"] by (simp add: pow2_0)
  then have dv: "x / pow2 (?e - 52) = x * pow2 (52 - ?e)" for x
    using pow2_pos [of "?e - 52"] by (simp add: field_simps)
  have "x * pow2 (52 - ?e) \<le> of_int B * pow2 (52 - ?e)"
    using assms(2) pow2_pos [of "52 - ?e"] by simp
  also have "\<dots> = of_int (B * 2 ^ nat (52 - ?e))"
    by (simp add: pow2_nat [OF k])
  finally have "roundHalfEven (x / pow2 (?e - 52)) \<le> B * 2 ^ nat (52 - ?e)"
    unfolding dv by (rule roundHalfEven_le)
  then have "(of_int (roundHalfEven (x / pow2 (?e - 52))) :: rat) \<le> of_int (B * 2 ^ nat (52 - ?e))"
    by (simp only: of_int_le_iff)
  also have "\<dots> = of_int B * pow2 (52 - ?e)"
    by (simp add: pow2_nat [OF k])
  finally have "of_int (roundHalfEven (x / pow2 (?e - 52))) * pow2 (?e - 52)
      \<le> of_int B * pow2 (52 - ?e) * pow2 (?e - 52)"
    using pow2_pos [of "?e - 52"] by simp
  also have "\<dots> = of_int B"
    using inv by (simp add: mult.assoc)
  finally show ?thesis
    by (simp add: roundToDouble_pos [OF assms(1)])
qed

lemma roundToDouble_error:
  assumes "0 < x"
  shows "\<bar>roundToDouble x - x\<bar> \<le> x / 2 ^ 53"
proof -
  let ?u = "pow2 (binExp x - 52)"
  have u: "0 < ?u" by (rule pow2_pos)
  have "\<bar>of_int (roundHalfEven (x / ?u)) - x / ?u\<bar> \<le> 1 / 2"
    by (rule roundHalfEven_error)
  then have "\<bar>of_int (roundHalfEven (x / ?u)) - x / ?u\<bar> * ?u \<le> 1 / 2 * ?u"
    using u by (simp only: mult_le_cancel_right_pos)
  moreover have "\<bar>of_int (roundHalfEven (x / ?u)) - x / ?u\<bar> * ?u
      = \<bar>of_int (roundHalfEven (x / ?u)) * ?u - x\<bar>"
  proof -
    have "\<bar>of_int (roundHalfEven (x / ?u)) - x / ?u\<bar> * ?u
        = \<bar>of_int (roundHalfEven (x / ?u)) - x / ?u\<bar> * \<bar>?u\<bar>"
      using u by simp
    also have "\<dots> = \<bar>(of_int (roundHalfEven (x / ?u)) - x / ?u) * ?u\<bar>"
      by (simp only: abs_mult)
    also have "(of_int (roundHalfEven (x / ?u)) - x / ?u) * ?u
        = of_int (roundHalfEven (x / ?u)) * ?u - x"
      using u by (simp add: left_diff_distrib)
    finally show ?thesis .
  qed
  ultimately have e: "\<bar>roundToDouble x - x\<bar> \<le> ?u / 2"
    by (simp add: roundToDouble_pos [OF assms])
  have "pow2 (binExp x) = pow2 52 * ?u"
    using pow2_add [of 52 "binExp x - 52"] by simp
  also have "pow2 52 = 2 ^ 52"
    by (simp add: pow2_def)
  finally have "2 ^ 52 * ?u \<le> x"
    using binExp_spec(1) [OF assms] by simp
  then have "?u / 2 \<le> x / 2 ^ 53"
    by (simp add: field_simps)
  with e show ?thesis by linarith
qed

section \<open>AdminDashboard: derived data\<close>

datatype NotificationType = Info | Success | Warning | Error






record GlobalStats =
  gs_totalStudents :: nat
  gs_totalTasks :: nat
  gs_completedTasks :: nat
  gs_overdueTasks :: nat
  gs_completionRate :: int

definition globalStats :: "int \<Rightarrow> UserProfile list \<Rightarrow> Task list \<Rightarrow> GlobalStats" where
  "globalStats now students allTasks =
     \<lparr>gs_totalStudents = length students,
      gs_totalTasks = length allTasks,
      gs_completedTasks = length (filter completed allTasks),
      gs_overdueTasks =
        length (filter (\<lambda>t. \<not> completed t \<and> isPast now (startOfDay_Date (toDate (dueDate t)))) allTasks),
      gs_completionRate =
        completionRate (length (filter completed allTasks)) (length allTasks)\<rparr>"

subsection \<open>CSV export\<close>

definition roleString :: "UserRole \<Rightarrow> string" where
  "roleString r = (case r of STUDENT \<Rightarrow> ''STUDENT'' | ADMIN \<Rightarrow> ''ADMIN'')"

definition exportRow :: "Task list \<Rightarrow> UserProfile \<Rightarrow> string" where
  "exportRow allTasks s =
     (let sTasks = filter (\<lambda>t. userId t = uid s) allTasks
      in join '',''
           [displayName s, email s, roleString (role s),
            format_yyyy_MM_dd (UserProfile.createdAt s),
            showNat (length sTasks),
            showNat (length (filter completed sTasks))])"

definition exportRows :: "UserProfile list \<Rightarrow> Task list \<Rightarrow> string list" where
  "exportRows students allTasks = map (exportRow allTasks) students"

definition exportHeaders :: "string list" where
  "exportHeaders =
     [''Display Name'', ''Email'', ''Role'', ''Joined Date'', ''Total Tasks'', ''Completed Tasks'']"

text \<open>The CSV text that \<open>handleExportUsers\<close> hands to the browser, before \<open>encodeURI\<close>.\<close>

definition csvContent :: "UserProfile list \<Rightarrow> Task list \<Rightarrow> string" where
  "csvContent students allTasks =
     ''data:text/csv;charset=utf-8,''
       @ join [CHR 0x0A] (join '','' exportHeaders # exportRows students allTasks)"

section \<open>Claims about the student view\<close>

text \<open>
  C1, as claimed: for every task list the four buckets of the student view (Overdue,
  Today, Upcoming, Completed) together cover the full list. They do not: an incomplete
  task whose due date is \<open>NaN\<close>, which the handler for editing a task writes for a date
  string that does not parse, fails \<open>isToday\<close>, \<open>isFuture\<close> and \<open>isPast\<close> and is in none
  of the four buckets.
\<close>

theorem buckets_miss_invalid_due_date:
  "set (overdueTasks 1699963200000
          [\<lparr>id = ''a'', userId = ''u'', title = ''read'', description = None,
             dueDate = NaN, completed = False, completedAt = None,
             createdAt = 1699900000000\<rparr>])
     \<union> set (todayTasks 1699963200000
          [\<lparr>id = ''a'', userId = ''u'', title = ''read'', description = None,
             dueDate = NaN, completed = False, completedAt = None,
             createdAt = 1699900000000\<rparr>])
     \<union> set (upcomingTasks 1699963200000
          [\<lparr>id = ''a'', userId = ''u'', title = ''read'', description = None,
             dueDate = NaN, completed = False, completedAt = None,
             createdAt = 1699900000000\<rparr>])
     \<union> set (completedTasks
          [\<lparr>id = ''a'', userId = ''u'', title = ''read'', description = None,
             dueDate = NaN, completed = False, completedAt = None,
             createdAt = 1699900000000\<rparr>])
   \<noteq> set [\<lparr>id = ''a'', userId = ''u'', title = ''read'', description = None,
             dueDate = NaN, completed = False, completedAt = None,
             createdAt = 1699900000000\<rparr>]"
  by (simp add: overdueTasks_def todayTasks_def upcomingTasks_def completedTasks_def
      toDate_def isToday_def isPast_def isFuture_def startOfDay_Date_def)

text \<open>
  C1, amended. For every task list and every current time, the four buckets are pairwise
  disjoint, and the three buckets of incomplete tasks hold exactly the incomplete tasks
  with a valid due date, those due before the current day in Overdue, those due on it in
  Today and those due after it in Upcoming. Together with Completed they hold each
  completed task and each task with a valid due date once, and so cover the full list
  whenever every incomplete task has a valid due date.
\<close>

theorem buckets_partition:
  "mset (overdueTasks now tasks) + mset (todayTasks now tasks)
      + mset (upcomingTasks now tasks) + mset (completedTasks tasks)
     = mset (filter (\<lambda>t. completed t \<or> validDue t) tasks)
   \<and> (list_all (\<lambda>t. completed t \<or> validDue t) tasks \<longrightarrow>
        set (overdueTasks now tasks) \<union> set (todayTasks now tasks)
          \<union> set (upcomingTasks now tasks) \<union> set (completedTasks tasks) = set tasks
        \<and> mset (overdueTasks now tasks) + mset (todayTasks now tasks)
          + mset (upcomingTasks now tasks) + mset (completedTasks tasks) = mset tasks)
   \<and> set (overdueTasks now tasks) \<inter> set (todayTasks now tasks) = {}
   \<and> set (overdueTasks now tasks) \<inter> set (upcomingTasks now tasks) = {}
   \<and> set (todayTasks now tasks) \<inter> set (upcomingTasks now tasks) = {}
   \<and> set (completedTasks tasks) \<inter>
       (set (overdueTasks now tasks) \<union> set (todayTasks now tasks)
          \<union> set (upcomingTasks now tasks)) = {}
   \<and> overdueTasks now tasks = filter (\<lambda>t. \<not> completed t \<and> dueBefore now t) tasks
   \<and> todayTasks now tasks = filter (\<lambda>t. \<not> completed t \<and> dueOn now t) tasks
   \<and> upcomingTasks now tasks = filter (\<lambda>t. \<not> completed t \<and> dueAfter now t) tasks
   \<and> (validDue t \<longleftrightarrow> dueBefore now t \<or> dueOn now t \<or> dueAfter now t)
   \<and> \<not> (dueBefore now t \<and> dueOn now t) \<and> \<not> (dueBefore now t \<and> dueAfter now t)
   \<and> \<not> (dueOn now t \<and> dueAfter now t)"
proof -
  have d1: "set (overdueTasks now tasks) \<inter> set (todayTasks now tasks) = {}"
    unfolding overdueTasks_days todayTasks_days using due_exclusive [of now] by auto
  have d2: "set (overdueTasks now tasks) \<inter> set (upcomingTasks now tasks) = {}"
    unfolding overdueTasks_days upcomingTasks_days using due_exclusive [of now] by auto
  have d3: "set (todayTasks now tasks) \<inter> set (upcomingTasks now tasks) = {}"
    unfolding todayTasks_days upcomingTasks_days using due_exclusive [of now] by auto
  have d4: "set (completedTasks tasks) \<inter>
       (set (overdueTasks now tasks) \<union> set (todayTasks now tasks)
          \<union> set (upcomingTasks now tasks)) = {}"
    unfolding overdueTasks_days todayTasks_days upcomingTasks_days completedTasks_def
    by auto
  have all: "list_all (\<lambda>t. completed t \<or> validDue t) tasks \<longrightarrow>
        set (overdueTasks now tasks) \<union> set (todayTasks now tasks)
          \<union> set (upcomingTasks now tasks) \<union> set (completedTasks tasks) = set tasks
        \<and> mset (overdueTasks now tasks) + mset (todayTasks now tasks)
          + mset (upcomingTasks now tasks) + mset (completedTasks tasks) = mset tasks"
  proof
    assume a: "list_all (\<lambda>t. completed t \<or> validDue t) tasks"
    then have f: "filter (\<lambda>t. completed t \<or> validDue t) tasks = tasks"
      by (simp add: list_all_iff)
    have m: "mset (overdueTasks now tasks) + mset (todayTasks now tasks)
          + mset (upcomingTasks now tasks) + mset (completedTasks tasks) = mset tasks"
      using buckets_mset [of now tasks] by (simp only: f)
    then have "set_mset (mset (overdueTasks now tasks) + mset (todayTasks now tasks)
          + mset (upcomingTasks now tasks) + mset (completedTasks tasks)) = set_mset (mset tasks)"
      by (rule arg_cong)
    then have "set (overdueTasks now tasks) \<union> set (todayTasks now tasks)
          \<union> set (upcomingTasks now tasks) \<union> set (completedTasks tasks) = set tasks"
      by simp
    with m show "set (overdueTasks now tasks) \<union> set (todayTasks now tasks)
          \<union> set (upcomingTasks now tasks) \<union> set (completedTasks tasks) = set tasks
        \<and> mset (overdueTasks now tasks) + mset (todayTasks now tasks)
          + mset (upcomingTasks now tasks) + mset (completedTasks tasks) = mset tasks"
      by simp
  qed
  show ?thesis
    using buckets_mset [of now tasks] all d1 d2 d3 d4
      overdueTasks_days [of now tasks] todayTasks_days [of now tasks]
      upcomingTasks_days [of now tasks] due_cases [of t now] due_exclusive [of now t]
    by blast
qed

theorem buckets_partition_witness:
  "overdueTasks 1699963200000
     [\<lparr>id = ''1'', userId = ''u'', title = ''read'', description = None,
        dueDate = Num 1699833600000, completed = False, completedAt = None, createdAt = 1\<rparr>,
      \<lparr>id = ''2'', userId = ''u'', title = ''write'', description = None,
        dueDate = Num 1699920000000, completed = False, completedAt = None, createdAt = 2\<rparr>,
      \<lparr>id = ''3'', userId = ''u'', title = ''sum'', description = None,
        dueDate = Num 1700006400000, completed = False, completedAt = None, createdAt = 3\<rparr>,
      \<lparr>id = ''4'', userId = ''u'', title = ''swim'', description = None,
        dueDate = Num 1699833600000, completed = True, completedAt = Some 5, createdAt = 4\<rparr>]
     = [\<lparr>id = ''1'', userId = ''u'', title = ''read'', description = None,
        dueDate = Num 1699833600000, completed = False, completedAt = None, createdAt = 1\<rparr>]
   \<and> set (overdueTasks 1699963200000
     [\<lparr>id = ''1'', userId = ''u'', title = ''read'', description = None,
        dueDate = Num 1699833600000, completed = False, completedAt = None, createdAt = 1\<rparr>,
      \<lparr>id = ''2'', userId = ''u'', title = ''write'', description = None,
        dueDate = Num 1699920000000, completed = False, completedAt = None, createdAt = 2\<rparr>,
      \<lparr>id = ''3'', userId = ''u'', title = ''sum'', description = None,
        dueDate = Num 1700006400000, completed = False, completedAt = None, createdAt = 3\<rparr>,
      \<lparr>id = ''4'', userId = ''u'', title = ''swim'', description = None,
        dueDate = Num 1699833600000, completed = True, completedAt = Some 5, createdAt = 4\<rparr>])
     \<union> set (todayTasks 1699963200000
     [\<lparr>id = ''1'', userId = ''u'', title = ''read'', description = None,
        dueDate = Num 1699833600000, completed = False, completedAt = None, createdAt = 1\<rparr>,
      \<lparr>id = ''2'', userId = ''u'', title = ''write'', description = None,
        dueDate = Num 1699920000000, completed = False, completedAt = None, createdAt = 2\<rparr>,
      \<lparr>id = ''3'', userId = ''u'', title = ''sum'', description = None,
        dueDate = Num 1700006400000, completed = False, completedAt = None, createdAt = 3\<rparr>,
      \<lparr>id = ''4'', userId = ''u'', title = ''swim'', description = None,
        dueDate = Num 1699833600000, completed = True, completedAt = Some 5, createdAt = 4\<rparr>])
     \<union> set (upcomingTasks 1699963200000
     [\<lparr>id = ''1'', userId = ''u'', title = ''read'', description = None,
        dueDate = Num 1699833600000, completed = False, completedAt = None, createdAt = 1\<rparr>,
      \<lparr>id = ''2'', userId = ''u'', title = ''write'', description = None,
        dueDate = Num 1699920000000, completed = False, completedAt = None, createdAt = 2\<rparr>,
      \<lparr>id = ''3'', userId = ''u'', title = ''sum'', description = None,
        dueDate = Num 1700006400000, completed = False, completedAt = None, createdAt = 3\<rparr>,
      \<lparr>id = ''4'', userId = ''u'', title = ''swim'', description = None,
        dueDate = Num 1699833600000, completed = True, completedAt = Some 5, createdAt = 4\<rparr>])
     \<union> set (completedTasks
     [\<lparr>id = ''1'', userId = ''u'', title = ''read'', description = None,
        dueDate = Num 1699833600000, completed = False, completedAt = None, createdAt = 1\<rparr>,
      \<lparr>id = ''2'', userId = ''u'', title = ''write'', description = None,
        dueDate = Num 1699920000000, completed = False, completedAt = None, createdAt = 2\<rparr>,
      \<lparr>id = ''3'', userId = ''u'', title = ''sum'', description = None,
        dueDate = Num 1700006400000, completed = False, completedAt = None, createdAt = 3\<rparr>,
      \<lparr>id = ''4'', userId = ''u'', title = ''swim'', description = None,
        dueDate = Num 1699833600000, completed = True, completedAt = Some 5, createdAt = 4\<rparr>])
     = set
     [\<lparr>id = ''1'', userId = ''u'', title = ''read'', description = None,
        dueDate = Num 1699833600000, completed = False, completedAt = None, createdAt = 1\<rparr>,
      \<lparr>id = ''2'', userId = ''u'', title = ''write'', description = None,
        dueDate = Num 1699920000000, completed = False, completedAt = None, createdAt = 2\<rparr>,
      \<lparr>id = ''3'', userId = ''u'', title = ''sum'', description = None,
        dueDate = Num 1700006400000, completed = False, completedAt = None, createdAt = 3\<rparr>,
      \<lparr>id = ''4'', userId = ''u'', title = ''swim'', description = None,
        dueDate = Num 1699833600000, completed = True, completedAt = Some 5, createdAt = 4\<rparr>]"
proof -
  let ?ts = "[\<lparr>id = ''1'', userId = ''u'', title = ''read'', description = None,
        dueDate = Num 1699833600000, completed = False, completedAt = None, createdAt = 1\<rparr>,
      \<lparr>id = ''2'', userId = ''u'', title = ''write'', description = None,
        dueDate = Num 1699920000000, completed = False, completedAt = None, createdAt = 2\<rparr>,
      \<lparr>id = ''3'', userId = ''u'', title = ''sum'', description = None,
        dueDate = Num 1700006400000, completed = False, completedAt = None, createdAt = 3\<rparr>,
      \<lparr>id = ''4'', userId = ''u'', title = ''swim'', description = None,
        dueDate = Num 1699833600000, completed = True, completedAt = Some 5, createdAt = 4\<rparr>]"
  have v: "list_all (\<lambda>t. completed t \<or> validDue t) ?ts"
    by (simp add: validDue_def toDate_def)
  have o: "overdueTasks 1699963200000 ?ts = [hd ?ts]"
    by (simp add: overdueTasks_def toDate_def isToday_def isPast_def isSameDay_def
        startOfDay_Date_def startOfDay_def msPerDay_def)
  from buckets_partition [of 1699963200000 ?ts "hd ?ts"] v
  have "set (overdueTasks 1699963200000 ?ts) \<union> set (todayTasks 1699963200000 ?ts)
          \<union> set (upcomingTasks 1699963200000 ?ts) \<union> set (completedTasks ?ts) = set ?ts"
    by blast
  with o show ?thesis
    by simp
qed

text \<open>
  C2, as claimed: the capped Completed preview is newest first by creation time. It is
  not: of two completed tasks created at times 1 and 2, the preview shows the older one
  first.
\<close>

theorem completedPreview_not_newest_first:
  "completedPreview
     [\<lparr>id = ''a'', userId = ''u'', title = ''first'', description = None, dueDate = Num 0,
        completed = True, completedAt = Some 5, createdAt = 1\<rparr>,
      \<lparr>id = ''b'', userId = ''u'', title = ''second'', description = None, dueDate = Num 0,
        completed = True, completedAt = Some 6, createdAt = 2\<rparr>]
   \<noteq> newestFirstPreview
     [\<lparr>id = ''a'', userId = ''u'', title = ''first'', description = None, dueDate = Num 0,
        completed = True, completedAt = Some 5, createdAt = 1\<rparr>,
      \<lparr>id = ''b'', userId = ''u'', title = ''second'', description = None, dueDate = Num 0,
        completed = True, completedAt = Some 6, createdAt = 2\<rparr>]"
  by (simp add: completedPreview_def newestFirstPreview_def completedTasks_def onSnapshot_def)

text \<open>
  C2, amended: the capped Completed preview is oldest first by creation time. For every
  fetched task list it is the completed tasks in ascending order of \<open>createdAt\<close> (tasks
  created at the same time keep their fetched order), cut to the first 10.
\<close>

theorem completedPreview_oldest_first:
  "completedPreview fetchedTasks = take 10 (sort_key Task.createdAt (filter completed fetchedTasks))
   \<and> sorted (map Task.createdAt (completedPreview fetchedTasks))
   \<and> length (completedPreview fetchedTasks) = min 10 (length (filter completed fetchedTasks))"
proof -
  have eq: "completedPreview fetchedTasks =
      take 10 (sort_key Task.createdAt (filter completed fetchedTasks))"
    by (simp add: completedPreview_def completedTasks_def onSnapshot_def filter_sort)
  have "sorted (map Task.createdAt (sort_key Task.createdAt (filter completed fetchedTasks)))"
    by (rule sorted_sort_key)
  then have "sorted (take 10 (map Task.createdAt (sort_key Task.createdAt (filter completed fetchedTasks))))"
    by (rule sorted_wrt_take)
  then have srt: "sorted (map Task.createdAt (completedPreview fetchedTasks))"
    by (simp add: eq take_map)
  have len: "length (completedPreview fetchedTasks) = min 10 (length (filter completed fetchedTasks))"
    by (simp add: eq min.commute)
  show ?thesis using eq srt len by blast
qed

text \<open>
  C4. Toggling a task writes \<open>completed\<close> and \<open>completedAt\<close> together: in the stored
  document the new \<open>completed\<close> is the negation of the toggled task's flag, and
  \<open>completedAt\<close> is the current time if the new state is completed and cleared otherwise.
  So the toggled document has \<open>completedAt\<close> set if and only if it is completed, and a
  collection in which every document satisfies that invariant still does after the toggle
  (also when the write fails and the collection is left as it was).
\<close>

theorem toggleTask_completedAt:
  "(db (id task) = Some d \<longrightarrow>
      (\<exists>d'. toggleTask db now task (id task) = Some d'
          \<and> completed d' = (\<not> completed task)
          \<and> completedAt d' = (if completed d' then Some now else None)
          \<and> completionInvariant d'))
   \<and> ((\<forall>k d. db k = Some d \<longrightarrow> completionInvariant d) \<longrightarrow>
      (\<forall>k d. toggleTask db now task k = Some d \<longrightarrow> completionInvariant d))"
  by (auto simp: toggleTask_def updateDoc_def toggleFields_def completionInvariant_def
      split: option.splits if_splits)

theorem toggleTask_completedAt_witness:
  "toggleTask
       [''a'' \<mapsto> \<lparr>id = ''a'', userId = ''u'', title = ''read'', description = None,
          dueDate = Num 0, completed = False, completedAt = None, createdAt = 1\<rparr>]
       7
       \<lparr>id = ''a'', userId = ''u'', title = ''read'', description = None,
          dueDate = Num 0, completed = False, completedAt = None, createdAt = 1\<rparr> ''a''
     = Some \<lparr>id = ''a'', userId = ''u'', title = ''read'', description = None,
       dueDate = Num 0, completed = True, completedAt = Some 7, createdAt = 1\<rparr>
   \<and> completionInvariant \<lparr>id = ''a'', userId = ''u'', title = ''read'', description = None,
       dueDate = Num 0, completed = True, completedAt = Some 7, createdAt = 1\<rparr>"
proof -
  let ?t = "\<lparr>id = ''a'', userId = ''u'', title = ''read'', description = None,
          dueDate = Num 0, completed = False, completedAt = None, createdAt = 1\<rparr>"
  let ?db = "[''a'' \<mapsto> ?t]"
  have h: "?db (id ?t) = Some ?t"
    by simp
  have ev: "toggleTask ?db 7 ?t ''a'' = Some (?t\<lparr>completed := True, completedAt := Some 7\<rparr>)"
    by (simp add: toggleTask_def updateDoc_def toggleFields_def)
  from toggleTask_completedAt [of ?db ?t ?t 7] h
  obtain d' where "toggleTask ?db 7 ?t (id ?t) = Some d'" and "completionInvariant d'"
    by blast
  with ev show ?thesis
    by simp
qed

section \<open>Claims about adding and editing a task\<close>

lemma startOfDay_normal:
  "startOfDay (startOfDay t) = startOfDay t" "startOfDay t mod msPerDay = 0"
  "startOfDay t \<le> t" "t < startOfDay t + msPerDay"
proof -
  show "startOfDay t mod msPerDay = 0"
    by (simp add: startOfDay_eq)
  then show "startOfDay (startOfDay t) = startOfDay t"
    by (simp add: startOfDay_def [of "startOfDay t"])
  show "startOfDay t \<le> t"
    by (rule startOfDay_le)
  have "t mod msPerDay < msPerDay"
    using msPerDay_pos by simp
  then show "t < startOfDay t + msPerDay"
    by (simp add: startOfDay_def)
qed

lemma calendar_date_stored:
  assumes "y < 10000" and "1 \<le> m" and "m \<le> 12" and "1 \<le> d"
    and "int d \<le> daysInMonth (int y) (int m - 1)"
  shows "getTime (startOfDay_Date (parseCalendarDate (isoDate y m d)))
     = Num (MakeDay (int y) (int m - 1) (int d) * msPerDay)"
  by (simp add: parseCalendarDate_isoDate [OF assms] startOfDay_Date_def getTime_def
      startOfDay_day_start)

text \<open>
  C5, as claimed: every due-date string that is not smaller than today's is stored as the
  start-of-day timestamp of the date. It is not: on 14 November 2023 the string
  \<open>20231-01-01\<close>, a year of five digits, is not smaller than \<open>2023-11-14\<close>; it does not
  parse, and the task is written with the due date \<open>NaN\<close>.
\<close>

theorem handleAddTask_stores_NaN:
  "\<not> js_less ''20231-01-01'' (format_yyyy_MM_dd 1699963200000)
   \<and> handleAddTask parseCalendarDate (Some ''u'') ''essay'' ''20231-01-01'' 1699963200000 True
     = Wrote \<lparr>new_userId = ''u'', new_title = ''essay'', new_dueDate = NaN,
          new_completed = False, new_createdAt = 1699963200000\<rparr>"
proof -
  have today: "format_yyyy_MM_dd 1699963200000 = ''2023-11-14''"
    by code_simp
  have tr: "trim ''essay'' = ''essay''"
    by (simp add: trim_def isWhiteSpace_def)
  have inv: "parseCalendarDate ''20231-01-01'' = InvalidDate"
    by (simp add: parseCalendarDate_def)
  show ?thesis
    by (simp add: handleAddTask_def today tr inv startOfDay_Date_def getTime_def)
qed

text \<open>
  C5, amended. A due-date string that is smaller than today's date string is rejected: the
  handler passes no task to the backend, and for a signed-in user and a title that is not
  blank it alerts that tasks cannot be scheduled for the past. For a due-date string that
  is not smaller than today's and that \<open>parseISO\<close> reads as a valid date (and a title
  that is not blank, a signed-in user and a write the backend accepts), the task is
  written with the trimmed title, not completed, and its due date is the timestamp of
  the start of the day of the parsed date.
\<close>

theorem handleAddTask_due_date:
  "(js_less newTaskDate (format_yyyy_MM_dd now) \<longrightarrow>
      (\<forall>doc. handleAddTask parseISO user newTaskTitle newTaskDate now addDocOk \<noteq> Wrote doc))
   \<and> (js_less newTaskDate (format_yyyy_MM_dd now) \<and> user = Some u \<and> trim newTaskTitle \<noteq> '''' \<longrightarrow>
      handleAddTask parseISO user newTaskTitle newTaskDate now addDocOk
        = Alerted ''You cannot schedule tasks for the past!'')
   \<and> (\<not> js_less newTaskDate (format_yyyy_MM_dd now) \<and> trim newTaskTitle \<noteq> ''''
        \<and> user = Some u \<and> addDocOk \<and> parseISO newTaskDate = DateOf t \<longrightarrow>
      handleAddTask parseISO user newTaskTitle newTaskDate now addDocOk
        = Wrote \<lparr>new_userId = u, new_title = trim newTaskTitle,
             new_dueDate = Num (startOfDay t),
             new_completed = False, new_createdAt = now\<rparr>
      \<and> startOfDay t mod msPerDay = 0 \<and> startOfDay t \<le> t \<and> t < startOfDay t + msPerDay)"
proof -
  have a: "js_less newTaskDate (format_yyyy_MM_dd now) \<longrightarrow>
      (\<forall>doc. handleAddTask parseISO user newTaskTitle newTaskDate now addDocOk \<noteq> Wrote doc)"
    by (simp add: handleAddTask_def split: option.splits)
  have b: "js_less newTaskDate (format_yyyy_MM_dd now) \<and> user = Some u \<and> trim newTaskTitle \<noteq> '''' \<longrightarrow>
      handleAddTask parseISO user newTaskTitle newTaskDate now addDocOk
        = Alerted ''You cannot schedule tasks for the past!''"
    by (simp add: handleAddTask_def)
  have c: "\<not> js_less newTaskDate (format_yyyy_MM_dd now) \<and> trim newTaskTitle \<noteq> ''''
        \<and> user = Some u \<and> addDocOk \<and> parseISO newTaskDate = DateOf t \<longrightarrow>
      handleAddTask parseISO user newTaskTitle newTaskDate now addDocOk
        = Wrote \<lparr>new_userId = u, new_title = trim newTaskTitle,
             new_dueDate = Num (startOfDay t),
             new_completed = False, new_createdAt = now\<rparr>"
    by (simp add: handleAddTask_def startOfDay_Date_def getTime_def)
  from a b c startOfDay_normal [of t] show ?thesis
    by blast
qed

theorem handleAddTask_due_date_witness:
  "handleAddTask parseCalendarDate (Some ''u'') '' essay '' ''2023-11-13'' 1699963200000 True
     = Alerted ''You cannot schedule tasks for the past!''
   \<and> handleAddTask parseCalendarDate (Some ''u'') '' essay '' ''2023-11-14'' 1699963200000 True
     = Wrote \<lparr>new_userId = ''u'', new_title = ''essay'', new_dueDate = Num 1699920000000,
          new_completed = False, new_createdAt = 1699963200000\<rparr>"
proof -
  have today: "format_yyyy_MM_dd 1699963200000 = ''2023-11-14''"
    by code_simp
  have tr: "trim '' essay '' = ''essay''"
    by (simp add: trim_def isWhiteSpace_def)
  have less: "js_less ''2023-11-13'' ''2023-11-14''" and nless: "\<not> js_less ''2023-11-14'' ''2023-11-14''"
    by simp_all
  have p: "parseCalendarDate ''2023-11-14'' = DateOf 1699920000000"
    by code_simp
  have s: "startOfDay 1699920000000 = 1699920000000"
    by (simp add: startOfDay_def msPerDay_def)
  note past = handleAddTask_due_date
    [of "''2023-11-13''" 1699963200000 parseCalendarDate "Some ''u''" "'' essay ''" True "''u''" 0]
  note ok = handleAddTask_due_date
    [of "''2023-11-14''" 1699963200000 parseCalendarDate "Some ''u''" "'' essay ''" True "''u''"
      1699920000000]
  from past today tr less
  have r1: "handleAddTask parseCalendarDate (Some ''u'') '' essay '' ''2023-11-13'' 1699963200000 True
     = Alerted ''You cannot schedule tasks for the past!''"
    by simp
  from ok today tr nless p s
  have "handleAddTask parseCalendarDate (Some ''u'') '' essay '' ''2023-11-14'' 1699963200000 True
        = Wrote \<lparr>new_userId = ''u'', new_title = ''essay'', new_dueDate = Num 1699920000000,
             new_completed = False, new_createdAt = 1699963200000\<rparr>"
    by simp
  with r1 show ?thesis
    by simp
qed

text \<open>
  C10, as claimed: for every date string an edit with a title that is not blank stores
  the start-of-day timestamp of the date. It does not: the date input of the edit form is
  not required, and an edit that leaves it empty passes the title check and writes the
  due date \<open>NaN\<close>; so does an edit to a year of five digits.
\<close>

theorem handleUpdateTask_stores_NaN:
  "handleUpdateTask parseCalendarDate
       (Some \<lparr>id = ''a'', userId = ''u'', title = ''read'', description = None,
          dueDate = Num 1699920000000, completed = False, completedAt = None,
          createdAt = 1699900000000\<rparr>) ''read more'' '''' True
     = Wrote (''a'', \<lparr>edit_title = ''read more'', edit_dueDate = NaN\<rparr>)
   \<and> handleUpdateTask parseCalendarDate
       (Some \<lparr>id = ''a'', userId = ''u'', title = ''read'', description = None,
          dueDate = Num 1699920000000, completed = False, completedAt = None,
          createdAt = 1699900000000\<rparr>) ''read more'' ''20231-01-01'' True
     = Wrote (''a'', \<lparr>edit_title = ''read more'', edit_dueDate = NaN\<rparr>)"
proof -
  have tr: "trim ''read more'' = ''read more''"
    by (simp add: trim_def isWhiteSpace_def)
  have inv: "parseCalendarDate '''' = InvalidDate" "parseCalendarDate ''20231-01-01'' = InvalidDate"
    by (simp_all add: parseCalendarDate_def)
  show ?thesis
    by (simp add: handleUpdateTask_def tr inv startOfDay_Date_def getTime_def)
qed

text \<open>
  C10, amended. Editing an existing task is rejected exactly when the trimmed title is
  empty. The update handler does not read the clock: for every date string that
  \<open>parseISO\<close> reads as a valid date, an edit with a title that is not blank writes the
  trimmed title and, as the due date, the timestamp of the start of the day of the parsed
  date. This includes a date string smaller than today's, which the handler for adding a
  task rejects.
\<close>

theorem handleUpdateTask_no_date_check:
  "((\<exists>msg. handleUpdateTask parseISO (Some task) editTitle editDate True = Alerted msg)
      \<longleftrightarrow> trim editTitle = '''')
   \<and> (trim editTitle \<noteq> '''' \<and> parseISO editDate = DateOf t \<longrightarrow>
      handleUpdateTask parseISO (Some task) editTitle editDate True
        = Wrote (id task, \<lparr>edit_title = trim editTitle, edit_dueDate = Num (startOfDay t)\<rparr>)
      \<and> startOfDay t mod msPerDay = 0 \<and> startOfDay t \<le> t \<and> t < startOfDay t + msPerDay)
   \<and> (trim editTitle \<noteq> '''' \<and> parseISO editDate = DateOf t
        \<and> js_less editDate (format_yyyy_MM_dd now) \<longrightarrow>
      handleUpdateTask parseISO (Some task) editTitle editDate True
        = Wrote (id task, \<lparr>edit_title = trim editTitle, edit_dueDate = Num (startOfDay t)\<rparr>)
      \<and> handleAddTask parseISO (Some u) editTitle editDate now True
        = Alerted ''You cannot schedule tasks for the past!'')"
proof -
  have a: "(\<exists>msg. handleUpdateTask parseISO (Some task) editTitle editDate True = Alerted msg)
      \<longleftrightarrow> trim editTitle = ''''"
    by (simp add: handleUpdateTask_def)
  have b: "trim editTitle \<noteq> '''' \<and> parseISO editDate = DateOf t \<longrightarrow>
      handleUpdateTask parseISO (Some task) editTitle editDate True
        = Wrote (id task, \<lparr>edit_title = trim editTitle, edit_dueDate = Num (startOfDay t)\<rparr>)"
    by (simp add: handleUpdateTask_def startOfDay_Date_def getTime_def)
  have c: "trim editTitle \<noteq> '''' \<and> js_less editDate (format_yyyy_MM_dd now) \<longrightarrow>
      handleAddTask parseISO (Some u) editTitle editDate now True
        = Alerted ''You cannot schedule tasks for the past!''"
    by (simp add: handleAddTask_def)
  from a b c startOfDay_normal [of t] show ?thesis
    by blast
qed

theorem handleUpdateTask_no_date_check_witness:
  "js_less ''2020-01-01'' (format_yyyy_MM_dd 1699963200000)
   \<and> handleUpdateTask parseCalendarDate
       (Some \<lparr>id = ''a'', userId = ''u'', title = ''read'', description = None,
          dueDate = Num 1699920000000, completed = False, completedAt = None,
          createdAt = 1699900000000\<rparr>) ''read more'' ''2020-01-01'' True
     = Wrote (''a'', \<lparr>edit_title = ''read more'', edit_dueDate = Num 1577836800000\<rparr>)
   \<and> dayNumber 1577836800000 < dayNumber 1699963200000
   \<and> handleAddTask parseCalendarDate (Some ''u'') ''read more'' ''2020-01-01'' 1699963200000 True
     = Alerted ''You cannot schedule tasks for the past!''"
proof -
  let ?task = "\<lparr>id = ''a'', userId = ''u'', title = ''read'', description = None,
          dueDate = Num 1699920000000, completed = False, completedAt = None,
          createdAt = 1699900000000\<rparr>"
  have today: "format_yyyy_MM_dd 1699963200000 = ''2023-11-14''"
    by code_simp
  have tr: "trim ''read more'' = ''read more''"
    by (simp add: trim_def isWhiteSpace_def)
  have less: "js_less ''2020-01-01'' ''2023-11-14''"
    by simp
  have p: "parseCalendarDate ''2020-01-01'' = DateOf 1577836800000"
    by code_simp
  have s: "startOfDay 1577836800000 = 1577836800000"
    by (simp add: startOfDay_def msPerDay_def)
  have days: "dayNumber 1577836800000 < dayNumber 1699963200000"
    by (simp add: dayNumber_def msPerDay_def)
  note inst = handleUpdateTask_no_date_check
    [of parseCalendarDate ?task "''read more''" "''2020-01-01''" 1577836800000 1699963200000 "''u''"]
  from inst tr p less today
  have "handleUpdateTask parseCalendarDate (Some ?task) ''read more'' ''2020-01-01'' True
        = Wrote (id ?task, \<lparr>edit_title = ''read more'',
             edit_dueDate = Num (startOfDay 1577836800000)\<rparr>)
      \<and> handleAddTask parseCalendarDate (Some ''u'') ''read more'' ''2020-01-01'' 1699963200000 True
        = Alerted ''You cannot schedule tasks for the past!''"
    by simp
  with s days less today show ?thesis
    by simp
qed

section \<open>Claims about the admin view\<close>

text \<open>
  C3. The overdue count of the admin statistics is claimed to count the incomplete tasks
  due before today. At noon of day 19675, an incomplete task due on that same day (its
  due timestamp is the day's start) is counted as overdue by the admin statistics, while
  the student view files the same task under Today and not under Overdue.
\<close>

theorem globalStats_overdue_counts_due_today:
  "gs_overdueTasks (globalStats 1699963200000 []
     [\<lparr>id = ''a'', userId = ''u'', title = ''read'', description = None,
        dueDate = Num 1699920000000, completed = False, completedAt = None,
        createdAt = 1699900000000\<rparr>]) = 1
   \<and> dayNumber 1699920000000 = dayNumber 1699963200000
   \<and> overdueTasks 1699963200000
     [\<lparr>id = ''a'', userId = ''u'', title = ''read'', description = None,
        dueDate = Num 1699920000000, completed = False, completedAt = None,
        createdAt = 1699900000000\<rparr>] = []
   \<and> length (todayTasks 1699963200000
     [\<lparr>id = ''a'', userId = ''u'', title = ''read'', description = None,
        dueDate = Num 1699920000000, completed = False, completedAt = None,
        createdAt = 1699900000000\<rparr>]) = 1"
  by (simp add: globalStats_def overdueTasks_def todayTasks_def isPast_def isToday_def
      isSameDay_def startOfDay_def startOfDay_Date_def toDate_def dayNumber_def msPerDay_def)




text \<open>
  C7. For every task list and every current time, the series of the performance line
  chart has length 7 for the range \<open>Week\<close>, and for the range \<open>Month\<close> its length is the
  number of days of the current calendar month.
\<close>

theorem dataPoints_length:
  "length (dataPoints tasks Week today) = 7
   \<and> length (dataPoints tasks Month today) = nat (daysInMonth (getFullYear today) (getMonth today))"
  by (simp add: dataPoints_def chartStart_def chartEnd_def week_length month_length)




subsection \<open>CSV export\<close>

lemma showNat_digit: "n < 10 \<Longrightarrow> showNat n = [digitChar n]"
  by (simp add: showNat.simps [of n])

text \<open>
  C9. The export has one row per student, in the order of the student list: the display
  name, the email, the role, the join date as \<open>yyyy-MM-dd\<close>, the number of the student's
  tasks and the number of the completed ones, joined by commas with no escaping. A student
  Ann with email a@x.com and role STUDENT who joined at \<open>T\<close> and has three tasks, two of
  them completed, gives the row \<open>Ann,a@x.com,STUDENT,<T as yyyy-MM-dd>,3,2\<close>.
\<close>

theorem exportRows_rows:
  "exportRows students allTasks =
     map (\<lambda>s. displayName s @ '','' @ email s @ '','' @ roleString (role s) @ '',''
            @ format_yyyy_MM_dd (UserProfile.createdAt s) @ '',''
            @ showNat (length (filter (\<lambda>t. userId t = uid s) allTasks)) @ '',''
            @ showNat (length (filter (\<lambda>t. userId t = uid s \<and> completed t) allTasks)))
       students
   \<and> length (exportRows students allTasks) = length students
   \<and> exportRows
       [\<lparr>uid = ''ann'', email = ''a@x.com'', displayName = ''Ann'', photoURL = '''',
          role = STUDENT, bio = None, createdAt = T\<rparr>]
       [\<lparr>id = ''1'', userId = ''ann'', title = ''read'', description = None, dueDate = Num 0,
          completed = True, completedAt = Some 5, createdAt = 1\<rparr>,
        \<lparr>id = ''2'', userId = ''bob'', title = ''swim'', description = None, dueDate = Num 0,
          completed = True, completedAt = Some 6, createdAt = 2\<rparr>,
        \<lparr>id = ''3'', userId = ''ann'', title = ''write'', description = None, dueDate = Num 0,
          completed = False, completedAt = None, createdAt = 3\<rparr>,
        \<lparr>id = ''4'', userId = ''ann'', title = ''sum'', description = None, dueDate = Num 0,
          completed = True, completedAt = Some 7, createdAt = 4\<rparr>]
     = [''Ann,a@x.com,STUDENT,'' @ format_yyyy_MM_dd T @ '',3,2'']"
proof -
  have fl: "filter completed (filter (\<lambda>t. userId t = u) xs)
      = filter (\<lambda>t. userId t = u \<and> completed t) xs" for u and xs :: "Task list"
    by (simp add: conj_commute)
  have a: "exportRows students allTasks =
     map (\<lambda>s. displayName s @ '','' @ email s @ '','' @ roleString (role s) @ '',''
            @ format_yyyy_MM_dd (UserProfile.createdAt s) @ '',''
            @ showNat (length (filter (\<lambda>t. userId t = uid s) allTasks)) @ '',''
            @ showNat (length (filter (\<lambda>t. userId t = uid s \<and> completed t) allTasks)))
       students"
    by (simp add: exportRows_def exportRow_def Let_def fl)
  have b: "length (exportRows students allTasks) = length students"
    by (simp add: exportRows_def)
  have c: "exportRows
       [\<lparr>uid = ''ann'', email = ''a@x.com'', displayName = ''Ann'', photoURL = '''',
          role = STUDENT, bio = None, createdAt = T\<rparr>]
       [\<lparr>id = ''1'', userId = ''ann'', title = ''read'', description = None, dueDate = Num 0,
          completed = True, completedAt = Some 5, createdAt = 1\<rparr>,
        \<lparr>id = ''2'', userId = ''bob'', title = ''swim'', description = None, dueDate = Num 0,
          completed = True, completedAt = Some 6, createdAt = 2\<rparr>,
        \<lparr>id = ''3'', userId = ''ann'', title = ''write'', description = None, dueDate = Num 0,
          completed = False, completedAt = None, createdAt = 3\<rparr>,
        \<lparr>id = ''4'', userId = ''ann'', title = ''sum'', description = None, dueDate = Num 0,
          completed = True, completedAt = Some 7, createdAt = 4\<rparr>]
     = [''Ann,a@x.com,STUDENT,'' @ format_yyyy_MM_dd T @ '',3,2'']"
    by (simp add: exportRows_def exportRow_def roleString_def showNat_digit digitChar_def)
  from a b c show ?thesis by blast
qed

section \<open>Claims about the completion rate\<close>

lemma pow2_53: "pow2 53 = 2 ^ 53"
  by (simp add: pow2_def)

lemma quotient_rounded:
  assumes "0 < c" and "c \<le> n"
  shows "0 < fdiv (of_nat c) (of_nat n)" and "fdiv (of_nat c) (of_nat n) \<le> 1"
    and "\<bar>fdiv (of_nat c) (of_nat n) - of_nat c / of_nat n\<bar> \<le> 1 / 2 ^ 53"
proof -
  let ?x = "of_nat c / of_nat n :: rat"
  have x: "0 < ?x" "?x \<le> 1"
    using assms by simp_all
  have e: "\<bar>roundToDouble ?x - ?x\<bar> \<le> ?x / 2 ^ 53"
    by (rule roundToDouble_error [OF x(1)])
  have "?x / 2 ^ 53 < ?x"
    using x(1) by (simp add: field_simps)
  with e show "0 < fdiv (of_nat c) (of_nat n)"
    by (simp add: fdiv_def abs_le_iff)
  have "?x < pow2 53"
    using x(2) by (simp add: pow2_53)
  from roundToDouble_le_int [OF x(1) _ this, of 1] x(2)
  show "fdiv (of_nat c) (of_nat n) \<le> 1"
    by (simp add: fdiv_def)
  have "?x / 2 ^ 53 \<le> 1 / 2 ^ 53"
    using x(2) by (simp add: divide_right_mono)
  with e show "\<bar>fdiv (of_nat c) (of_nat n) - ?x\<bar> \<le> 1 / 2 ^ 53"
    by (simp add: fdiv_def)
qed

lemma product_rounded:
  assumes "0 < q" and "q \<le> 1"
  shows "0 \<le> fmul q 100" and "fmul q 100 \<le> 100"
    and "\<bar>fmul q 100 - q * 100\<bar> \<le> 100 / 2 ^ 53"
proof -
  have y: "0 < q * 100" "q * 100 \<le> 100"
    using assms by simp_all
  show "0 \<le> fmul q 100"
    using y(1) by (simp add: fmul_def roundToDouble_nonneg)
  have "q * 100 < pow2 53"
    using y(2) by (simp add: pow2_53)
  from roundToDouble_le_int [OF y(1) _ this, of 100] y(2)
  show "fmul q 100 \<le> 100"
    by (simp add: fmul_def)
  have "\<bar>roundToDouble (q * 100) - q * 100\<bar> \<le> q * 100 / 2 ^ 53"
    by (rule roundToDouble_error [OF y(1)])
  moreover have "q * 100 / 2 ^ 53 \<le> 100 / 2 ^ 53"
    using y(2) by (simp add: divide_right_mono)
  ultimately show "\<bar>fmul q 100 - q * 100\<bar> \<le> 100 / 2 ^ 53"
    by (simp add: fmul_def)
qed

lemma floor_half: "\<lfloor>1 / 2 :: rat\<rfloor> = 0"
  by (rule floor_unique) simp_all

lemma completionRate_zero_completed: "completionRate 0 n = 0"
  by (simp add: completionRate_def fdiv_def fmul_def roundToDouble_def Math_round_def floor_half)

lemma completionRate_range:
  assumes "c \<le> n"
  shows "0 \<le> completionRate c n" and "completionRate c n \<le> 100"
proof -
  have "0 \<le> completionRate c n \<and> completionRate c n \<le> 100"
  proof (cases "n = 0 \<or> c = 0")
    case True
    then show ?thesis
      using completionRate_zero_completed [of n] by (auto simp: completionRate_def)
  next
    case False
    then have c: "0 < c" and n: "n \<noteq> 0" by simp_all
    let ?q = "fdiv (of_nat c) (of_nat n)"
    have q: "0 < ?q" "?q \<le> 1"
      using quotient_rounded [OF c assms] by simp_all
    have p: "0 \<le> fmul ?q 100" "fmul ?q 100 \<le> 100"
      using product_rounded [OF q] by simp_all
    have "0 \<le> \<lfloor>fmul ?q 100 + 1 / 2\<rfloor>"
      using p(1) by (simp add: zero_le_floor)
    moreover have "fmul ?q 100 + 1 / 2 < of_int 101"
      using p(2) by simp
    then have "\<lfloor>fmul ?q 100 + 1 / 2\<rfloor> < 101"
      by (simp only: floor_less_iff)
    ultimately show ?thesis
      using n by (simp add: completionRate_def Math_round_def)
  qed
  then show "0 \<le> completionRate c n" and "completionRate c n \<le> 100"
    by simp_all
qed

lemma product_close:
  assumes "0 < c" and "c \<le> n"
  shows "\<bar>fmul (fdiv (of_nat c) (of_nat n)) 100 - of_nat c / of_nat n * 100\<bar> \<le> 200 / 2 ^ 53"
proof -
  define q where "q = fdiv (of_nat c) (of_nat n)"
  define x :: rat where "x = of_nat c / of_nat n"
  have q: "0 < q" "q \<le> 1" and qe: "\<bar>q - x\<bar> \<le> 1 / 2 ^ 53"
    using quotient_rounded [OF assms] by (simp_all add: q_def x_def)
  have pe: "\<bar>fmul q 100 - q * 100\<bar> \<le> 100 / 2 ^ 53"
    using product_rounded [OF q] by simp
  have "q * 100 - x * 100 = (q - x) * 100"
    by (simp add: algebra_simps)
  then have "\<bar>q * 100 - x * 100\<bar> = \<bar>q - x\<bar> * 100"
    by (simp only: abs_mult)
  with qe have "\<bar>q * 100 - x * 100\<bar> \<le> 100 / 2 ^ 53"
    by simp
  with pe have "\<bar>fmul q 100 - x * 100\<bar> \<le> 200 / 2 ^ 53"
    by linarith
  then show ?thesis
    by (simp only: q_def x_def)
qed

text \<open>
  Against the exactly rounded percentage: below \<open>2^32\<close> tasks the computed rate is the
  exact one, unless the exact percentage lies half way between two integers, where the
  computed rate is the exact one or one less.
\<close>

lemma completionRate_specRate:
  assumes "c \<le> n" and "n < 2 ^ 32"
  shows "completionRate c n = specRate c n
    \<or> (200 * c + n) mod (2 * n) = 0 \<and> completionRate c n = specRate c n - 1"
proof (cases "n = 0 \<or> c = 0")
  case True
  then show ?thesis
    using completionRate_zero_completed [of n]
    by (auto simp: completionRate_def specRate_def floor_half)
next
  case False
  then have c: "0 < c" and n: "0 < n" by simp_all
  define p where "p = fmul (fdiv (of_nat c) (of_nat n)) 100"
  define X :: rat where "X = of_nat c / of_nat n * 100"
  define k where "k = (200 * c + n) div (2 * n)"
  define r where "r = (200 * c + n) mod (2 * n)"
  define d :: rat where "d = of_nat (2 * n)"
  define f :: rat where "f = of_nat r / d"
  define i :: rat where "i = 1 / d"
  define K :: rat where "K = of_nat k"
  have d: "0 < d" using n by (simp add: d_def)
  have i: "0 < i" using d by (simp add: i_def)
  have J: "200 * c + n = 2 * n * k + r" and rD: "r < 2 * n"
    using n by (simp_all add: k_def r_def)
  have "X + 1 / 2 = of_nat (200 * c + n) / d"
    using n by (simp add: X_def d_def field_simps)
  also have "\<dots> = of_nat (2 * n * k + r) / d"
    by (simp only: J)
  also have "\<dots> = K + f"
    using n by (simp add: K_def f_def d_def field_simps)
  finally have X: "X + 1 / 2 = K + f" .
  have f0: "0 \<le> f"
    using d by (simp add: f_def)
  have f1: "f \<le> 1 - i"
  proof -
    have "r + 1 \<le> 2 * n" using rD by simp
    then have "(of_nat (r + 1) :: rat) \<le> of_nat (2 * n)"
      by (simp only: of_nat_le_iff)
    then have "of_nat r + 1 \<le> d"
      by (simp add: d_def)
    then show ?thesis using d by (simp add: f_def i_def field_simps)
  qed
  have spec: "specRate c n = int k"
  proof -
    have "of_int (int k) \<le> X + 1 / 2"
      using f0 by (simp add: X K_def)
    moreover have "X + 1 / 2 < of_int (int k) + 1"
      using f1 i by (simp add: X K_def)
    ultimately have "\<lfloor>X + 1 / 2\<rfloor> = int k"
      by (rule floor_unique)
    then show ?thesis using n by (simp add: specRate_def X_def)
  qed
  define e :: rat where "e = 200 / 2 ^ 53"
  have "\<bar>p - X\<bar> \<le> e"
    unfolding p_def X_def e_def by (rule product_close [OF c assms(1)])
  then have close: "p \<le> X + e" "X - e \<le> p"
    by linarith+
  have small: "e < i"
  proof -
    have "400 * n < 400 * 2 ^ 32" using assms(2) by simp
    also have "\<dots> < (2 ^ 53 :: nat)" by simp
    finally have "(of_nat (400 * n) :: rat) < of_nat (2 ^ 53)"
      by (simp only: of_nat_less_iff)
    then have "200 * d < 2 ^ 53"
      by (simp add: d_def)
    then show ?thesis using d by (simp add: e_def i_def field_simps)
  qed
  have rate: "completionRate c n = \<lfloor>p + 1 / 2\<rfloor>"
    using n by (simp add: completionRate_def Math_round_def p_def)
  have Kk: "of_int (int k) = K"
    by (simp add: K_def)
  have up: "p + 1 / 2 < of_int (int k) + 1"
    unfolding Kk using close X f1 small by linarith
  show ?thesis
  proof (cases "r = 0")
    case False
    then have "1 \<le> r" by simp
    then have "(of_nat 1 :: rat) \<le> of_nat r"
      by (simp only: of_nat_le_iff)
    then have "i \<le> f"
      using d by (simp add: i_def f_def divide_right_mono)
    then have "of_int (int k) \<le> p + 1 / 2"
      unfolding Kk using close X small by linarith
    then have "\<lfloor>p + 1 / 2\<rfloor> = int k"
      using up by (rule floor_unique)
    then show ?thesis by (simp add: rate spec)
  next
    case True
    then have "f = 0" by (simp add: f_def)
    moreover have "e < 1"
      by (simp add: e_def)
    moreover have "of_int (int k - 1) = K - 1"
      by (simp add: K_def)
    ultimately have lo: "of_int (int k - 1) \<le> p + 1 / 2"
      using close X by linarith
    have "\<lfloor>p + 1 / 2\<rfloor> = int k \<or> \<lfloor>p + 1 / 2\<rfloor> = int k - 1"
    proof (cases "of_int (int k) \<le> p + 1 / 2")
      case True
      then have "\<lfloor>p + 1 / 2\<rfloor> = int k" using up by (rule floor_unique)
      then show ?thesis by simp
    next
      case False
      then have "p + 1 / 2 < of_int (int k - 1) + 1" by simp
      with lo have "\<lfloor>p + 1 / 2\<rfloor> = int k - 1" by (rule floor_unique)
      then show ?thesis by simp
    qed
    with True show ?thesis
      by (auto simp: rate spec r_def)
  qed
qed

lemma completionRate_23_of_40: "completionRate 23 40 = 57" and specRate_23_of_40: "specRate 23 40 = 58"
  by code_simp+

text \<open>
  C6, as claimed: the completion rate equals the percentage rounded to the nearest
  integer. It does not for 23 completed tasks of 40: the percentage is 57.5, which rounds
  to 58, while the quotient 23 / 40 in double precision times 100 is just below 57.5 and
  \<open>Math.round\<close> gives 57.
\<close>

theorem completionRate_not_exact_rounding:
  "studentCompletionRate
     (replicate 23 \<lparr>id = ''a'', userId = ''u'', title = ''read'', description = None,
          dueDate = Num 0, completed = True, completedAt = Some 5, createdAt = 1\<rparr>
      @ replicate 17 \<lparr>id = ''b'', userId = ''u'', title = ''write'', description = None,
          dueDate = Num 0, completed = False, completedAt = None, createdAt = 2\<rparr>)
   \<noteq> specRate
     (length (filter completed
        (replicate 23 \<lparr>id = ''a'', userId = ''u'', title = ''read'', description = None,
          dueDate = Num 0, completed = True, completedAt = Some 5, createdAt = 1\<rparr>
         @ replicate 17 \<lparr>id = ''b'', userId = ''u'', title = ''write'', description = None,
          dueDate = Num 0, completed = False, completedAt = None, createdAt = 2\<rparr>)))
     (length
        (replicate 23 \<lparr>id = ''a'', userId = ''u'', title = ''read'', description = None,
          dueDate = Num 0, completed = True, completedAt = Some 5, createdAt = 1\<rparr>
         @ replicate 17 \<lparr>id = ''b'', userId = ''u'', title = ''write'', description = None,
          dueDate = Num 0, completed = False, completedAt = None, createdAt = 2\<rparr>))"
  by (simp add: studentCompletionRate_def completionRate_23_of_40 specRate_23_of_40)

text \<open>
  No rule for ties describes the computed rate: 23 completed tasks of 40 are 57.5 per
  cent and give 57, and 1 completed task of 8 is 12.5 per cent and gives 13.
\<close>

lemma completionRate_1_of_8: "completionRate 1 8 = 13"
  by code_simp

text \<open>
  C6, amended. For every task list, the completion rate of the student view and of the
  admin statistics is an integer from 0 to 100. It is 0 for the empty list, with no
  division. Otherwise it is \<open>Math.round\<close> of the double-precision product of the
  double-precision quotient of the completed count by the total count and 100. For a list
  of fewer than \<open>2^32\<close> tasks that is the percentage rounded to the nearest integer, except
  that where the percentage lies exactly half way between two integers the rate is the
  upper one or the lower one.
\<close>

theorem completionRate_bounds:
  "0 \<le> studentCompletionRate tasks \<and> studentCompletionRate tasks \<le> 100
   \<and> studentCompletionRate [] = 0
   \<and> 0 \<le> gs_completionRate (globalStats now students tasks)
   \<and> gs_completionRate (globalStats now students tasks) \<le> 100
   \<and> gs_completionRate (globalStats now students []) = 0
   \<and> gs_completionRate (globalStats now students tasks) = studentCompletionRate tasks
   \<and> (tasks \<noteq> [] \<longrightarrow>
        studentCompletionRate tasks
          = Math_round (fmul (fdiv (of_nat (length (filter completed tasks)))
                                   (of_nat (length tasks))) 100))
   \<and> (length tasks < 2 ^ 32 \<longrightarrow>
        studentCompletionRate tasks
            = specRate (length (filter completed tasks)) (length tasks)
        \<or> (200 * length (filter completed tasks) + length tasks) mod (2 * length tasks) = 0
          \<and> studentCompletionRate tasks
            = specRate (length (filter completed tasks)) (length tasks) - 1)"
proof -
  have le: "length (filter completed tasks) \<le> length tasks"
    by simp
  have a: "0 \<le> studentCompletionRate tasks" "studentCompletionRate tasks \<le> 100"
    using completionRate_range [OF le] by (simp_all add: studentCompletionRate_def)
  have b: "studentCompletionRate [] = 0" "gs_completionRate (globalStats now students []) = 0"
    by (simp_all add: studentCompletionRate_def globalStats_def completionRate_def)
  have c: "gs_completionRate (globalStats now students tasks) = studentCompletionRate tasks"
    by (simp add: studentCompletionRate_def globalStats_def)
  have d: "tasks \<noteq> [] \<longrightarrow>
        studentCompletionRate tasks
          = Math_round (fmul (fdiv (of_nat (length (filter completed tasks)))
                                   (of_nat (length tasks))) 100)"
    by (simp add: studentCompletionRate_def completionRate_def)
  have e: "length tasks < 2 ^ 32 \<longrightarrow>
        studentCompletionRate tasks
            = specRate (length (filter completed tasks)) (length tasks)
        \<or> (200 * length (filter completed tasks) + length tasks) mod (2 * length tasks) = 0
          \<and> studentCompletionRate tasks
            = specRate (length (filter completed tasks)) (length tasks) - 1"
    using completionRate_specRate [OF le] by (simp add: studentCompletionRate_def)
  from a b c d e show ?thesis
    by simp
qed

theorem completionRate_bounds_witness:
  "studentCompletionRate
     (replicate 23 \<lparr>id = ''a'', userId = ''u'', title = ''read'', description = None,
          dueDate = Num 0, completed = True, completedAt = Some 5, createdAt = 1\<rparr>
      @ replicate 17 \<lparr>id = ''b'', userId = ''u'', title = ''write'', description = None,
          dueDate = Num 0, completed = False, completedAt = None, createdAt = 2\<rparr>)
     = specRate 23 40 - 1
   \<and> (200 * 23 + 40) mod (2 * 40) = (0::nat)
   \<and> studentCompletionRate
     (replicate 3 \<lparr>id = ''a'', userId = ''u'', title = ''read'', description = None,
          dueDate = Num 0, completed = True, completedAt = Some 5, createdAt = 1\<rparr>
      @ replicate 1 \<lparr>id = ''b'', userId = ''u'', title = ''write'', description = None,
          dueDate = Num 0, completed = False, completedAt = None, createdAt = 2\<rparr>)
     = specRate 3 4
   \<and> specRate 3 4 = 75"
proof -
  let ?d = "\<lparr>id = ''a'', userId = ''u'', title = ''read'', description = None,
          dueDate = Num 0, completed = True, completedAt = Some 5, createdAt = 1\<rparr>"
  let ?o = "\<lparr>id = ''b'', userId = ''u'', title = ''write'', description = None,
          dueDate = Num 0, completed = False, completedAt = None, createdAt = 2\<rparr>"
  have r1: "studentCompletionRate (replicate 23 ?d @ replicate 17 ?o) = specRate 23 40 - 1"
    by (simp add: studentCompletionRate_def completionRate_23_of_40 specRate_23_of_40)
  have m: "(200 * 23 + 40) mod (2 * 40) = (0::nat)"
    by simp
  have s34: "specRate 3 4 = 75"
    by code_simp
  have nz: "(200 * 3 + 4) mod (2 * 4) \<noteq> (0::nat)"
    by simp
  have len: "length (replicate 3 ?d @ replicate 1 ?o) < 2 ^ 32"
    by simp
  have cnt: "length (filter completed (replicate 3 ?d @ replicate 1 ?o)) = 3"
    "length (replicate 3 ?d @ replicate 1 ?o) = 4"
    by simp_all
  from completionRate_bounds [of "replicate 3 ?d @ replicate 1 ?o" 0 "[]"] len
  have "studentCompletionRate (replicate 3 ?d @ replicate 1 ?o)
            = specRate (length (filter completed (replicate 3 ?d @ replicate 1 ?o)))
                (length (replicate 3 ?d @ replicate 1 ?o))
        \<or> (200 * length (filter completed (replicate 3 ?d @ replicate 1 ?o))
              + length (replicate 3 ?d @ replicate 1 ?o))
            mod (2 * length (replicate 3 ?d @ replicate 1 ?o)) = 0
          \<and> studentCompletionRate (replicate 3 ?d @ replicate 1 ?o)
            = specRate (length (filter completed (replicate 3 ?d @ replicate 1 ?o)))
                (length (replicate 3 ?d @ replicate 1 ?o)) - 1"
    by blast
  then have r2: "studentCompletionRate (replicate 3 ?d @ replicate 1 ?o) = specRate 3 4"
    unfolding cnt using nz by simp
  from r1 m r2 s34 show ?thesis
    by simp
qed

end
